theory Spec2Isabelle
  imports Main "HOL-Library.Word" "HOL-Library.Monad_Syntax" "HOL-Library.Sublist"
begin

unbundle bit_operations_syntax

section \<open>The state-based lighthouse disambiguator (disambiguator\_statebased.c)\<close>

text \<open>
  A shallow embedding of \<^verbatim>\<open>src/disambiguator_statebased.c\<close>. Fixed-width unsigned
  fields are words, so that the wrap-around of timestamps is the one of the C code. The
  fields and locals declared \<^verbatim>\<open>int\<close> (confidence, counters, offsets within a cycle) are
  HOL integers: signed overflow is undefined in C, and none of the properties below depends
  on it. A result of type \<open>option\<close> is \<open>None\<close> where the C program stops on a failed
  \<^verbatim>\<open>assert\<close> or has undefined behaviour (a null pointer, an index outside an array, a
  division by zero). Logging (\<^verbatim>\<open>SV_INFO\<close>, \<^verbatim>\<open>SV_WARN\<close>, \<^verbatim>\<open>DEBUG_TB\<close>) has no effect on the
  state and is left out.
\<close>

type_synonym u8 = "8 word"
type_synonym u16 = "16 word"
type_synonym u32 = "32 word"
type_synonym u64 = "64 word"

subsection \<open>Capture events\<close>

text \<open>
  \<^verbatim>\<open>LightcapElement\<close> is declared in a header that is not among the sources; the field
  widths are the ones of the input event of the specification (section 6):
  \<^verbatim>\<open>sensor_id: u8\<close>, \<^verbatim>\<open>length: u16\<close>, \<^verbatim>\<open>timestamp: u32\<close>.
\<close>

record LightcapElement =
  sensor_id :: u8
  length_le :: u16
  timestamp :: u32

definition zero_le :: LightcapElement where
  "zero_le = \<lparr>sensor_id = 0, length_le = 0, timestamp = 0\<rparr>"

subsection \<open>The schedule table\<close>

text \<open>\<^verbatim>\<open>enum LighthouseState\<close>: the states are their numbers, 0 to 13.\<close>

definition LS_UNKNOWN :: nat where "LS_UNKNOWN = 0"
definition LS_WaitLHA_ACode4 :: nat where "LS_WaitLHA_ACode4 = 1"
definition LS_WaitLHB_ACode0 :: nat where "LS_WaitLHB_ACode0 = 7"
definition LS_SweepBY :: nat where "LS_SweepBY = 12"
definition LS_END :: nat where "LS_END = 13"

definition PULSE_WINDOW :: int where "PULSE_WINDOW = 20000"
definition CAPTURE_WINDOW :: int where "CAPTURE_WINDOW = 360000"

record LighthouseStateParameters =
  acode :: int
  lh :: int
  axis :: int
  window :: int
  is_sweep :: bool

definition LSP :: "int \<Rightarrow> int \<Rightarrow> int \<Rightarrow> int \<Rightarrow> bool \<Rightarrow> LighthouseStateParameters" where
  "LSP a l x w s = \<lparr>acode = a, lh = l, axis = x, window = w, is_sweep = s\<rparr>"

text \<open>The table \<^verbatim>\<open>LS_Params[LS_END + 1]\<close>; a field without initialiser is 0.\<close>

definition LS_Params :: "LighthouseStateParameters list" where
  "LS_Params =
    [ LSP 0 (-1) (-1) 0 False,
      LSP 4 1 0 PULSE_WINDOW False,
      LSP 0 0 0 PULSE_WINDOW False,
      LSP 4 0 0 CAPTURE_WINDOW True,
      LSP 5 1 1 PULSE_WINDOW False,
      LSP 1 0 1 PULSE_WINDOW False,
      LSP 1 0 1 CAPTURE_WINDOW True,
      LSP 0 1 0 PULSE_WINDOW False,
      LSP 4 0 0 PULSE_WINDOW False,
      LSP 4 1 0 CAPTURE_WINDOW True,
      LSP 1 1 1 PULSE_WINDOW False,
      LSP 5 0 1 PULSE_WINDOW False,
      LSP 5 1 1 CAPTURE_WINDOW True,
      LSP 0 (-1) (-1) 0 False ]"

definition ACODE_TIMING :: "int \<Rightarrow> int" where
  "ACODE_TIMING a =
    (3000 + (a AND 1) * 500 + ((drop_bit 1 a) AND 1) * 1000 + ((drop_bit 2 a) AND 1) * 2000) - 250"

definition DATA_BIT :: int where "DATA_BIT = 2"

definition LSParam_acode :: "nat \<Rightarrow> int" where
  "LSParam_acode s = acode (LS_Params ! s)"

text \<open>
  \<^verbatim>\<open>LSParam_offset_for_state\<close> fills a static table on its first call: entry \<open>i\<close> is the
  sum of the windows of the entries before \<open>i\<close>.
\<close>

fun offsets_from :: "int \<Rightarrow> LighthouseStateParameters list \<Rightarrow> int list" where
  "offsets_from offset [] = []"
| "offsets_from offset (p # ps) = offset # offsets_from (offset + window p) ps"

definition LSParam_offset_for_state :: "nat \<Rightarrow> int" where
  "LSParam_offset_for_state s = offsets_from 0 LS_Params ! s"

text \<open>
  \<^verbatim>\<open>LighthouseState_findByOffset\<close>: the first \<open>i\<close> from 2 to \<open>LS_END\<close> whose start is
  beyond the offset decides between \<open>i\<close> and \<open>i - 1\<close>. The result is the state and the
  value stored through \<^verbatim>\<open>error\<close>; \<open>None\<close> is the \<^verbatim>\<open>assert(false)\<close> after the loop.
\<close>

definition LighthouseState_findByOffset :: "int \<Rightarrow> (nat \<times> int) option" where
  "LighthouseState_findByOffset offset =
    (case List.find (\<lambda>i. LSParam_offset_for_state i > offset) [2 ..< LS_END + 1] of
       None \<Rightarrow> None
     | Some i \<Rightarrow>
         let offset_from_last = LSParam_offset_for_state (i - 1);
             offset_from_this = LSParam_offset_for_state i;
             dist_from_last = offset - offset_from_last;
             dist_from_this = offset_from_this - offset;
             this_is_closest = (dist_from_last > dist_from_this);
             this_is_closest =
               (if is_sweep (LS_Params ! (i - 1)) \<and> dist_from_this > 1000 then False
                else this_is_closest)
         in Some (if this_is_closest then i else i - 1,
                  if this_is_closest then dist_from_this else dist_from_last))"

subsection \<open>Pulse classification\<close>

definition find_acode :: "u32 \<Rightarrow> int" where
  "find_acode pulseLen =
    (let offset = 50 in
     if pulseLen < 2500 + offset then -1
     else if pulseLen < 3000 + offset then 0
     else if pulseLen < 3500 + offset then 1
     else if pulseLen < 4000 + offset then 2
     else if pulseLen < 4500 + offset then 3
     else if pulseLen < 5000 + offset then 4
     else if pulseLen < 5500 + offset then 5
     else if pulseLen < 6000 + offset then 6
     else if pulseLen < 6500 + offset then 7
     else -1)"

text \<open>
  \<^verbatim>\<open>overlaps\<close>: the sums are taken in \<^verbatim>\<open>uint32_t\<close>, the result is stored in an
  \<^verbatim>\<open>int\<close> and compared with half of the length of \<open>a\<close>.
\<close>

definition overlaps :: "LightcapElement \<Rightarrow> LightcapElement \<Rightarrow> bool" where
  "overlaps a b =
    (let overlap :: int =
       (if timestamp a < timestamp b \<and> ucast (length_le a) + timestamp a > timestamp b
        then sint (ucast (length_le a) + timestamp a - timestamp b)
        else if timestamp b < timestamp a \<and> ucast (length_le b) + timestamp b > timestamp a
        then sint (ucast (length_le b) + timestamp b - timestamp a)
        else 0)
     in overlap > uint (length_le a) div 2)"

definition LOWER_SYNC_TIME :: int where "LOWER_SYNC_TIME = 2250"
definition UPPER_SYNC_TIME :: int where "UPPER_SYNC_TIME = 6750"

datatype LightcapClassification = LCC_SWEEP | LCC_SYNC

definition naive_classify :: "LightcapElement \<Rightarrow> LightcapClassification" where
  "naive_classify le =
    (let clearlyNotSync =
       (uint (length_le le) < LOWER_SYNC_TIME \<or> uint (length_le le) > UPPER_SYNC_TIME)
     in if clearlyNotSync then LCC_SWEEP else LCC_SYNC)"

definition calculate_error :: "int \<Rightarrow> LightcapElement \<Rightarrow> u32" where
  "calculate_error target_acode le =
    (let time_error_d0 :: u32 = word_of_int \<bar>ACODE_TIMING target_acode - uint (length_le le)\<bar>;
         time_error_d1 :: u32 =
           word_of_int \<bar>ACODE_TIMING (target_acode OR DATA_BIT) - uint (length_le le)\<bar>
     in if time_error_d0 > time_error_d1 then time_error_d1 else time_error_d0)"

subsection \<open>Modular offsets\<close>

text \<open>The remainder of C on \<^verbatim>\<open>int\<close>: it has the sign of the dividend.\<close>

definition c_rem :: "int \<Rightarrow> int \<Rightarrow> int" where
  "c_rem a b = sgn a * (\<bar>a\<bar> mod \<bar>b\<bar>)"

text \<open>
  \<^verbatim>\<open>apply_mod_offset\<close>. Its callers pass \<open>LS_WaitLHB_ACode0\<close> or \<open>LS_END\<close> as
  \<open>end_state\<close>, for which \<open>mod_group\<close> is 800000 or 1600000.
\<close>

definition apply_mod_offset :: "u32 \<Rightarrow> u32 \<Rightarrow> nat \<Rightarrow> u32" where
  "apply_mod_offset timestamp' mod_offset' end_state =
    (let mod_group = LSParam_offset_for_state end_state in
     if timestamp' > mod_offset' then (timestamp' - mod_offset') mod (word_of_int mod_group)
     else if mod_offset' - timestamp' > 0xFFFFFFFF div 2
       then (0xFFFFFFFF - mod_offset' + timestamp') mod (word_of_int mod_group)
     else
       let timestamp' = timestamp' mod (word_of_int mod_group);
           mod_offset' = mod_offset' mod (word_of_int mod_group);
           rtn = c_rem (sint timestamp' - sint mod_offset') mod_group;
           rtn = (if rtn < 0 then rtn + mod_group else rtn)
       in word_of_int rtn)"

subsection \<open>Tracker state\<close>

text \<open>
  \<^verbatim>\<open>Disambiguator_data_t\<close>, without the back pointer \<^verbatim>\<open>so\<close>: an object is named by its
  index in the context. \<^verbatim>\<open>mod_offset\<close> has \<^verbatim>\<open>NUM_LIGHTHOUSES\<close> entries, two in the
  specification; \<^verbatim>\<open>sync_history\<close> has \<^verbatim>\<open>SYNC_HISTORY_LEN\<close> entries and \<^verbatim>\<open>sweep_data\<close>
  one entry for each sensor.
\<close>

definition SYNC_HISTORY_LEN :: nat where "SYNC_HISTORY_LEN = 12"
definition NUM_LIGHTHOUSES :: nat where "NUM_LIGHTHOUSES = 2"

record Disambiguator_data_t =
  last_timestamp :: u32
  last_sync_timestamp :: u64
  last_sync_length :: u64
  last_sync_count :: int
  first_sync_timestamp :: u32
  longest_sync_length :: u32
  state :: nat
  mod_offset :: "u32 list"
  confidence :: int
  stabalize :: int
  failures :: int
  lastWasSync :: bool
  sync_history :: "LightcapElement list"
  sync_offset :: nat
  sweep_data :: "LightcapElement list"

record Global_Disambiguator_data_t =
  single_60hz_mode :: bool

text \<open>
  The fields of \<^verbatim>\<open>SurviveObject\<close> the disambiguator reads: the sensor count, the tick
  rate, and the pointer to its tracker state (\<open>None\<close> is \<^verbatim>\<open>NULL\<close>).
\<close>

record SurviveObject =
  sensor_ct :: nat
  timebase_hz :: int
  disambiguator_data :: "Disambiguator_data_t option"

text \<open>One call of the callback \<^verbatim>\<open>ctx->lightproc\<close>, with its arguments in order.\<close>

record lightproc_call =
  lp_so :: nat
  lp_sensor_id :: int
  lp_acode :: int
  lp_timeinsweep :: int
  lp_timecode :: u32
  lp_length :: u32
  lp_lh :: int

text \<open>
  \<^verbatim>\<open>SurviveContext\<close>: its objects, the global disambiguator data (\<open>None\<close> is
  \<^verbatim>\<open>NULL\<close>) and the calls of \<^verbatim>\<open>lightproc\<close> made so far, oldest first.
\<close>

record SurviveContext =
  objs :: "SurviveObject list"
  disambiguator_data_g :: "Global_Disambiguator_data_t option"
  lightproc_log :: "lightproc_call list"

definition get_d :: "SurviveContext \<Rightarrow> nat \<Rightarrow> Disambiguator_data_t option" where
  "get_d ctx i = (if i < length (objs ctx) then disambiguator_data (objs ctx ! i) else None)"

definition put_d :: "SurviveContext \<Rightarrow> nat \<Rightarrow> Disambiguator_data_t \<Rightarrow> SurviveContext" where
  "put_d ctx i d = ctx\<lparr>objs := (objs ctx)[i := (objs ctx ! i)\<lparr>disambiguator_data := Some d\<rparr>]\<rparr>"

definition lightproc :: "SurviveContext \<Rightarrow> lightproc_call \<Rightarrow> SurviveContext" where
  "lightproc ctx c = ctx\<lparr>lightproc_log := lightproc_log ctx @ [c]\<rparr>"

subsection \<open>The sync aggregator and the sync history\<close>

definition get_last_sync :: "Disambiguator_data_t \<Rightarrow> LightcapElement" where
  "get_last_sync d =
    (if last_sync_count d = 0 then zero_le
     else \<lparr>sensor_id = word_of_int (- last_sync_count d),
           length_le = ucast (longest_sync_length d),
           timestamp = first_sync_timestamp d\<rparr>)"

definition SolveForMod_Offset :: "nat \<Rightarrow> LightcapElement \<Rightarrow> u32 option" where
  "SolveForMod_Offset st le =
    (if is_sweep (LS_Params ! st) then None
     else Some (timestamp le - word_of_int (LSParam_offset_for_state st)))"

definition EndSweep :: nat where
  "EndSweep = LS_UNKNOWN"

text \<open>
  \<^verbatim>\<open>AddSyncHistory\<close>. The index \<^verbatim>\<open>sync_offset\<close> starts at 0, is set to 0 by
  \<^verbatim>\<open>SetState\<close> and wraps here, so it is below \<^verbatim>\<open>SYNC_HISTORY_LEN\<close> at every store.
\<close>

definition AddSyncHistory :: "Disambiguator_data_t \<Rightarrow> LightcapElement \<Rightarrow> Disambiguator_data_t" where
  "AddSyncHistory d sync =
    (if length_le sync \<noteq> 0 then
       let d = d\<lparr>sync_history := (sync_history d)[sync_offset d := sync],
                 sync_offset := sync_offset d + 1\<rparr>
       in if sync_offset d \<ge> SYNC_HISTORY_LEN then d\<lparr>sync_offset := 0\<rparr> else d
     else d)"

fun get_best_latest_state_loop ::
  "SurviveObject list \<Rightarrow> nat \<Rightarrow> int \<Rightarrow> nat option \<Rightarrow> nat option" where
  "get_best_latest_state_loop [] i max_confidence best_d = best_d"
| "get_best_latest_state_loop (so # sos) i max_confidence best_d =
    (case disambiguator_data so of
       None \<Rightarrow> get_best_latest_state_loop sos (Suc i) max_confidence best_d
     | Some d \<Rightarrow>
         if state d \<noteq> LS_UNKNOWN \<and> max_confidence < confidence d
         then get_best_latest_state_loop sos (Suc i) (confidence d) (Some i)
         else get_best_latest_state_loop sos (Suc i) max_confidence best_d)"

text \<open>The result is the index of the object whose tracker state is returned.\<close>

definition get_best_latest_state :: "SurviveContext \<Rightarrow> nat option" where
  "get_best_latest_state ctx = get_best_latest_state_loop (objs ctx) 0 0 None"

definition RegisterSync :: "Disambiguator_data_t \<Rightarrow> LightcapElement \<Rightarrow> Disambiguator_data_t" where
  "RegisterSync d le =
    (let d = (if timestamp le < first_sync_timestamp d \<or> longest_sync_length d = 0
              then d\<lparr>first_sync_timestamp := timestamp le\<rparr> else d);
         d = (if ucast (length_le le) > longest_sync_length d
              then d\<lparr>longest_sync_length := ucast (length_le le)\<rparr> else d)
     in d\<lparr>last_sync_timestamp := last_sync_timestamp d + ucast (timestamp le),
          last_sync_length := last_sync_length d + ucast (length_le le),
          last_sync_count := last_sync_count d + 1\<rparr>)"

definition ResetSync :: "Disambiguator_data_t \<Rightarrow> Disambiguator_data_t" where
  "ResetSync d =
    d\<lparr>first_sync_timestamp := 0, longest_sync_length := 0,
      last_sync_timestamp := 0, last_sync_length := 0, last_sync_count := 0\<rparr>"

subsection \<open>The lock finder\<close>

text \<open>
  The loop of \<^verbatim>\<open>find_inliers\<close> over the history; it stops at the first entry of length
  0.
\<close>

fun find_inliers_loop :: "LightcapElement list \<Rightarrow> u32 \<Rightarrow> bool \<Rightarrow> int \<Rightarrow> int option" where
  "find_inliers_loop [] guess_mod test60hz inliers = Some inliers"
| "find_inliers_loop (le # les) guess_mod test60hz inliers =
    (if length_le le > 0 then
       let end_of_mod = (if test60hz then LS_WaitLHB_ACode0 else LS_END);
           le_offset = sint (apply_mod_offset (timestamp le) guess_mod end_of_mod)
       in case LighthouseState_findByOffset le_offset of
            None \<Rightarrow> None
          | Some (this_state, offset_error) \<Rightarrow>
              let acode = LSParam_acode this_state;
                  error = calculate_error acode le
              in if is_sweep (LS_Params ! this_state)
                 then find_inliers_loop les guess_mod test60hz inliers
                 else if lh (LS_Params ! this_state) \<noteq> 0 \<and> test60hz
                 then find_inliers_loop les guess_mod test60hz inliers
                 else if error < 500 \<and> offset_error < 500
                 then find_inliers_loop les guess_mod test60hz (inliers + 1)
                 else find_inliers_loop les guess_mod test60hz inliers
     else Some inliers)"

definition find_inliers :: "Disambiguator_data_t \<Rightarrow> u32 \<Rightarrow> bool \<Rightarrow> int option" where
  "find_inliers d guess_mod test60hz =
    find_inliers_loop (take SYNC_HISTORY_LEN (sync_history d)) guess_mod test60hz 0"

text \<open>
  The inner loop of \<^verbatim>\<open>find_relative_offset\<close> over \<^verbatim>\<open>test60hz\<close>: \<open>Some (Some t)\<close> when
  the mode \<open>t\<close> has more than \<^verbatim>\<open>SYNC_HISTORY_LEN - 1\<close> inliers, \<open>Some None\<close> when the loop
  ends without one. \<open>has_best\<close> is \<^verbatim>\<open>best_d != 0\<close> and \<open>mode\<close> is
  \<^verbatim>\<open>g->single_60hz_mode\<close>.
\<close>

fun find_relative_offset_modes ::
  "Disambiguator_data_t \<Rightarrow> bool \<Rightarrow> bool \<Rightarrow> u32 \<Rightarrow> nat list \<Rightarrow> nat option option" where
  "find_relative_offset_modes d has_best mode guess_mod [] = Some None"
| "find_relative_offset_modes d has_best mode guess_mod (test60hz # ts) =
    (if has_best \<and> test60hz \<noteq> (if mode then 1 else 0)
     then find_relative_offset_modes d has_best mode guess_mod ts
     else case find_inliers d guess_mod (test60hz \<noteq> 0) of
            None \<Rightarrow> None
          | Some inliers \<Rightarrow>
              if inliers > int SYNC_HISTORY_LEN - 1 then Some (Some test60hz)
              else find_relative_offset_modes d has_best mode guess_mod ts)"

text \<open>
  The outer loop over the guesses. The result is the state returned together with the
  values of \<^verbatim>\<open>*mod\<close> and \<^verbatim>\<open>*single_60hz\<close>; they are written only when a state is found,
  and the caller reads them only then.
\<close>

fun find_relative_offset_guesses ::
  "Disambiguator_data_t \<Rightarrow> bool \<Rightarrow> bool \<Rightarrow> LightcapElement \<Rightarrow> int \<Rightarrow> nat list
    \<Rightarrow> (nat \<times> u32 \<times> bool) option" where
  "find_relative_offset_guesses d has_best mode re ac [] = Some (LS_UNKNOWN, 0, False)"
| "find_relative_offset_guesses d has_best mode re ac (guess # gs) =
    (if LSParam_acode guess = ac \<and> \<not> is_sweep (LS_Params ! guess) then
       case SolveForMod_Offset guess re of
         None \<Rightarrow> None
       | Some guess_mod \<Rightarrow>
          (case find_relative_offset_modes d has_best mode guess_mod
                  [0 ..< (if guess \<ge> LS_WaitLHB_ACode0 then 1 else 2)] of
             None \<Rightarrow> None
           | Some (Some test60hz) \<Rightarrow> Some (guess, guess_mod, test60hz = 1)
           | Some None \<Rightarrow> find_relative_offset_guesses d has_best mode re ac gs)
     else find_relative_offset_guesses d has_best mode re ac gs)"

definition find_relative_offset :: "SurviveContext \<Rightarrow> nat \<Rightarrow> (nat \<times> u32 \<times> bool) option" where
  "find_relative_offset ctx i = do {
     d \<leftarrow> get_d ctx i;
     g \<leftarrow> disambiguator_data_g ctx;
     let best_d = get_best_latest_state ctx;
     let ri = (sync_offset d + (SYNC_HISTORY_LEN - 1)) mod SYNC_HISTORY_LEN;
     let re = sync_history d ! ri;
     let ac = find_acode (ucast (length_le re)) AND 5;
     find_relative_offset_guesses d (best_d \<noteq> None) (single_60hz_mode g) re ac
       [LS_UNKNOWN + 1 ..< LS_END]
   }"

definition EndSync :: "SurviveContext \<Rightarrow> nat \<Rightarrow> (SurviveContext \<times> nat) option" where
  "EndSync ctx i = do {
     d \<leftarrow> get_d ctx i;
     g \<leftarrow> disambiguator_data_g ctx;
     let lastSync = get_last_sync d;
     let d = AddSyncHistory d lastSync;
     let ctx = put_d ctx i d;
     (new_state, mod', is60hz) \<leftarrow> find_relative_offset ctx i;
     if new_state \<noteq> LS_UNKNOWN then
       if 1 < length (mod_offset d) then
         Some (put_d (ctx\<lparr>disambiguator_data_g := Some (g\<lparr>single_60hz_mode := is60hz\<rparr>)\<rparr>) i
                 (d\<lparr>mod_offset := (mod_offset d)[1 := mod', 0 := mod']\<rparr>), new_state)
       else None
     else Some (ctx, LS_UNKNOWN)
   }"

definition AttemptFindState ::
  "SurviveContext \<Rightarrow> nat \<Rightarrow> LightcapElement \<Rightarrow> (SurviveContext \<times> nat) option" where
  "AttemptFindState ctx i le = do {
     d \<leftarrow> get_d ctx i;
     if naive_classify le = LCC_SYNC then
       let lastSync = get_last_sync d in
       if \<not> lastWasSync d \<or> \<not> overlaps lastSync le then do {
         (ctx, new_state) \<leftarrow> (if lastWasSync d then EndSync ctx i else Some (ctx, EndSweep));
         if new_state \<noteq> LS_UNKNOWN then Some (ctx, new_state)
         else do {
           d \<leftarrow> get_d ctx i;
           let d = ResetSync d;
           let d = RegisterSync d le;
           Some (put_d ctx i (d\<lparr>lastWasSync := True\<rparr>), LS_UNKNOWN)
         }
       }
       else
         let d = RegisterSync d le
         in Some (put_d ctx i (d\<lparr>lastWasSync := True\<rparr>), LS_UNKNOWN)
     else if lastWasSync d then do {
       (ctx, new_state) \<leftarrow> EndSync ctx i;
       if new_state \<noteq> LS_UNKNOWN then Some (ctx, new_state)
       else do {
         d \<leftarrow> get_d ctx i;
         Some (put_d ctx i (d\<lparr>lastWasSync := False\<rparr>), LS_UNKNOWN)
       }
     }
     else Some (put_d ctx i (d\<lparr>lastWasSync := False\<rparr>), LS_UNKNOWN)
   }"

subsection \<open>The state tracker\<close>

text \<open>
  \<^verbatim>\<open>SetState\<close>. The C function also returns the state it stored; no caller reads it.
  \<^verbatim>\<open>get_best_latest_state\<close> runs after the new state is stored, so it sees it.
\<close>

definition SetState :: "SurviveContext \<Rightarrow> nat \<Rightarrow> nat \<Rightarrow> SurviveContext option" where
  "SetState ctx i new_state = do {
     d \<leftarrow> get_d ctx i;
     g \<leftarrow> disambiguator_data_g ctx;
     let new_state = (if new_state \<ge> LS_END then 1 else new_state);
     let d = d\<lparr>state := new_state\<rparr>;
     let d = (if new_state = LS_UNKNOWN
              then d\<lparr>sync_history := replicate SYNC_HISTORY_LEN zero_le, sync_offset := 0\<rparr>
              else d);
     let ctx = put_d ctx i d;
     let g = (if new_state = LS_UNKNOWN \<and> get_best_latest_state ctx = None
              then g\<lparr>single_60hz_mode := False\<rparr> else g);
     let d = ResetSync d;
     let d = d\<lparr>sweep_data := replicate (sensor_ct (objs ctx ! i)) zero_le\<rparr>;
     Some (put_d (ctx\<lparr>disambiguator_data_g := Some g\<rparr>) i d)
   }"

definition RunACodeCapture ::
  "SurviveContext \<Rightarrow> nat \<Rightarrow> int \<Rightarrow> LightcapElement \<Rightarrow> SurviveContext option" where
  "RunACodeCapture ctx i target_acode le =
    (if uint (length_le le) < 400 then Some ctx
     else do {
       d \<leftarrow> get_d ctx i;
       let error = calculate_error target_acode le;
       if error > 1250 then do {
         let penalty = 3;
         ctx \<leftarrow> (if confidence d < penalty then SetState ctx i LS_UNKNOWN else Some ctx);
         d \<leftarrow> get_d ctx i;
         Some (put_d ctx i (d\<lparr>confidence := confidence d - penalty\<rparr>))
       } else do {
         let d = (if confidence d < 100 then d\<lparr>confidence := confidence d + 1\<rparr> else d);
         Some (put_d ctx i (RegisterSync d le))
       }
     })"

text \<open>A read of \<^verbatim>\<open>d->mod_offset[lh]\<close>; the index is inside the array or the read is undefined.\<close>

definition mod_offset_at :: "Disambiguator_data_t \<Rightarrow> int \<Rightarrow> u32 option" where
  "mod_offset_at d l =
    (if 0 \<le> l \<and> nat l < length (mod_offset d) then Some (mod_offset d ! nat l) else None)"

text \<open>
  The second loop of the sweep branch of \<^verbatim>\<open>ProcessStateChange\<close>, over the slots of
  \<^verbatim>\<open>sweep_data\<close> paired with their indices.
\<close>

fun ProcessStateChange_sweeps ::
  "SurviveContext \<Rightarrow> nat \<Rightarrow> Disambiguator_data_t \<Rightarrow> nat \<Rightarrow> nat \<Rightarrow> nat \<Rightarrow> int
    \<Rightarrow> (nat \<times> LightcapElement) list \<Rightarrow> SurviveContext option" where
  "ProcessStateChange_sweeps ctx i d end_of_mod minl maxl lh' [] = Some ctx"
| "ProcessStateChange_sweeps ctx i d end_of_mod minl maxl lh' ((k, le) # rest) =
    (if length_le le > 0 \<and> unat (length_le le) \<ge> minl \<and> unat (length_le le) \<le> maxl then
       case mod_offset_at d lh' of
         None \<Rightarrow> None
       | Some mo \<Rightarrow>
           let le_offset =
                 sint (apply_mod_offset (timestamp le + word_of_int (uint (length_le le) div 2))
                         mo end_of_mod);
               offset_from = le_offset - LSParam_offset_for_state (state d) + 20000
           in if \<not> offset_from > 0 then None
              else ProcessStateChange_sweeps
                     (if confidence d > 80
                      then lightproc ctx
                             \<lparr>lp_so = i, lp_sensor_id = int k, lp_acode = LSParam_acode (state d),
                              lp_timeinsweep = offset_from, lp_timecode = timestamp le,
                              lp_length = ucast (length_le le), lp_lh = lh'\<rparr>
                      else ctx)
                     i d end_of_mod minl maxl lh' rest
     else ProcessStateChange_sweeps ctx i d end_of_mod minl maxl lh' rest)"

text \<open>
  The block ``Leaving a sync'' of \<^verbatim>\<open>ProcessStateChange\<close>, for an aggregator that holds
  data. \<open>delta\<close> only feeds a warning, but it reads \<^verbatim>\<open>d->mod_offset[lh]\<close>.
\<close>

definition ProcessStateChange_leave_sync ::
  "SurviveContext \<Rightarrow> nat \<Rightarrow> Disambiguator_data_t \<Rightarrow> Global_Disambiguator_data_t
    \<Rightarrow> SurviveContext option" where
  "ProcessStateChange_leave_sync ctx i d g =
    (if last_sync_count d > 0 then do {
       let lastSync = \<lparr>sensor_id = word_of_int (- last_sync_count d),
                       length_le = ucast (longest_sync_length d),
                       timestamp = first_sync_timestamp d\<rparr>;
       let d = AddSyncHistory d lastSync;
       new_offset \<leftarrow> SolveForMod_Offset (state d) lastSync;
       let lh' = lh (LS_Params ! state d);
       old_offset \<leftarrow> mod_offset_at d lh';
       let d = d\<lparr>mod_offset := (mod_offset d)[nat lh' := new_offset]\<rparr>;
       let lengthData = ACODE_TIMING (LSParam_acode (state d) OR DATA_BIT);
       let lengthNoData = ACODE_TIMING (LSParam_acode (state d));
       let hasData = (\<bar>lengthData - uint (length_le lastSync)\<bar>
                       < \<bar>lengthNoData - uint (length_le lastSync)\<bar>);
       let ac = LSParam_acode (state d);
       let ac = (if hasData then ac OR DATA_BIT else ac);
       let next_state = state d + 1;
       let next_state =
             (if next_state = LS_END \<or> (single_60hz_mode g \<and> next_state = LS_WaitLHB_ACode0)
              then 0 else next_state);
       let index_code = (if is_sweep (LS_Params ! next_state) then -1 else -2);
       let ctx = put_d ctx i d;
       Some (if confidence d > 80
             then lightproc ctx
                    \<lparr>lp_so = i, lp_sensor_id = index_code, lp_acode = ac,
                     lp_timeinsweep = 0, lp_timecode = timestamp lastSync,
                     lp_length = ucast (length_le lastSync), lp_lh = lh'\<rparr>
             else ctx)
     } else Some ctx)"

text \<open>
  The block ``Leaving a sweep''. \<open>maxl\<close> is \<^verbatim>\<open>var * DIV_ROUND_CLOSEST(avg_length, cnt)\<close>
  with \<^verbatim>\<open>var = 3\<close>, the product of a double and an unsigned quotient, which is exact for
  sums of 16-bit lengths.
\<close>

definition ProcessStateChange_leave_sweep ::
  "SurviveContext \<Rightarrow> nat \<Rightarrow> Disambiguator_data_t \<Rightarrow> nat \<Rightarrow> SurviveContext option" where
  "ProcessStateChange_leave_sweep ctx i d end_of_mod =
    (let slots = take (sensor_ct (objs ctx ! i)) (sweep_data d);
         hits = filter (\<lambda>e. length_le e > 0) slots;
         avg_length = sum_list (map (\<lambda>e. unat (length_le e)) hits);
         cnt = length hits
     in if cnt > 0 then
          let minl = 10;
              maxl = 3 * ((avg_length + cnt div 2) div cnt);
              lh' = lh (LS_Params ! state d)
          in ProcessStateChange_sweeps ctx i d end_of_mod minl maxl lh'
               (zip [0 ..< length slots] slots)
        else Some ctx)"

definition ProcessStateChange ::
  "SurviveContext \<Rightarrow> nat \<Rightarrow> LightcapElement \<Rightarrow> nat \<Rightarrow> SurviveContext option" where
  "ProcessStateChange ctx i le new_state = do {
     d \<leftarrow> get_d ctx i;
     g \<leftarrow> disambiguator_data_g ctx;
     let end_of_mod = (if single_60hz_mode g then LS_WaitLHB_ACode0 else LS_END);
     ctx \<leftarrow> (if \<not> is_sweep (LS_Params ! state d) then ProcessStateChange_leave_sync ctx i d g
             else ProcessStateChange_leave_sweep ctx i d end_of_mod);
     SetState ctx i new_state
   }"

text \<open>
  Lines 642 to 656 of \<^verbatim>\<open>PropagateState\<close>: what is done with the event in the state the
  tracker is in after the state change. The slot is inside \<^verbatim>\<open>sweep_data\<close> by the check on
  \<^verbatim>\<open>sensor_id\<close> at the start of \<^verbatim>\<open>PropagateState\<close>.
\<close>

definition PropagateState_capture ::
  "SurviveContext \<Rightarrow> nat \<Rightarrow> LightcapElement \<Rightarrow> SurviveContext option" where
  "PropagateState_capture ctx i le = do {
     d \<leftarrow> get_d ctx i;
     if \<not> is_sweep (LS_Params ! state d) then RunACodeCapture ctx i (LSParam_acode (state d)) le
     else if \<not> unat (sensor_id le) < length (sweep_data d) then None
     else if length_le le > length_le (sweep_data d ! unat (sensor_id le))
             \<and> uint (length_le le) < 7000 then
       let d = (if uint (length_le le) > 3000 then d\<lparr>confidence := confidence d - 1\<rparr> else d)
       in Some (put_d ctx i (d\<lparr>sweep_data := (sweep_data d)[unat (sensor_id le) := le]\<rparr>))
     else Some ctx
   }"

definition PropagateState ::
  "SurviveContext \<Rightarrow> nat \<Rightarrow> LightcapElement \<Rightarrow> SurviveContext option" where
  "PropagateState ctx i le = do {
     d \<leftarrow> get_d ctx i;
     if unat (sensor_id le) \<ge> sensor_ct (objs ctx ! i) then Some ctx
     else do {
       g \<leftarrow> disambiguator_data_g ctx;
       let end_of_mod = (if single_60hz_mode g then LS_WaitLHB_ACode0 else LS_END);
       let lh' = lh (LS_Params ! state d);
       mo \<leftarrow> mod_offset_at d lh';
       let le_offset =
             sint (apply_mod_offset (timestamp le + word_of_int (uint (length_le le) div 2))
                     mo end_of_mod);
       (new_state, offset_error) \<leftarrow> LighthouseState_findByOffset le_offset;
       ctx \<leftarrow> (if state d \<noteq> new_state then ProcessStateChange ctx i le new_state else Some ctx);
       PropagateState_capture ctx i le
     }
   }"

subsection \<open>The dispatcher\<close>

text \<open>The tracker state that \<^verbatim>\<open>calloc\<close> returns: every field is 0.\<close>

definition calloc_d :: "nat \<Rightarrow> Disambiguator_data_t" where
  "calloc_d n =
    \<lparr>last_timestamp = 0, last_sync_timestamp = 0, last_sync_length = 0, last_sync_count = 0,
     first_sync_timestamp = 0, longest_sync_length = 0, state = LS_UNKNOWN,
     mod_offset = replicate NUM_LIGHTHOUSES 0, confidence = 0, stabalize = 0, failures = 0,
     lastWasSync = False, sync_history = replicate SYNC_HISTORY_LEN zero_le, sync_offset = 0,
     sweep_data = replicate n zero_le\<rparr>"

definition set_last_timestamp :: "SurviveContext \<Rightarrow> nat \<Rightarrow> LightcapElement \<Rightarrow> SurviveContext option" where
  "set_last_timestamp ctx i le = do {
     d \<leftarrow> get_d ctx i;
     Some (put_d ctx i (d\<lparr>last_timestamp := timestamp le\<rparr>))
   }"

text \<open>
  The two blocks of \<^verbatim>\<open>DisambiguatorStateBased\<close> that allocate the global data and the
  tracker state of the object on first use.
\<close>

definition DisambiguatorStateBased_alloc :: "SurviveContext \<Rightarrow> nat \<Rightarrow> SurviveContext" where
  "DisambiguatorStateBased_alloc ctx i =
    (let ctx = (if disambiguator_data_g ctx = None
                then ctx\<lparr>disambiguator_data_g := Some \<lparr>single_60hz_mode = False\<rparr>\<rparr>
                else ctx);
         ctx = (if disambiguator_data (objs ctx ! i) = None
                then put_d ctx i (calloc_d (sensor_ct (objs ctx ! i)))
                else ctx)
     in ctx)"

text \<open>
  The branch \<^verbatim>\<open>d->state == LS_UNKNOWN\<close> of \<^verbatim>\<open>DisambiguatorStateBased\<close>, lines 689 to
  706, followed by the last statement of the function. \<open>new_state1\<close> only feeds a log
  line, but it is computed by \<^verbatim>\<open>LighthouseState_findByOffset\<close>, which can assert.
\<close>

definition DisambiguatorStateBased_unknown ::
  "SurviveContext \<Rightarrow> nat \<Rightarrow> LightcapElement \<Rightarrow> SurviveContext option" where
  "DisambiguatorStateBased_unknown ctx i le = do {
     (ctx, new_state) \<leftarrow> AttemptFindState ctx i le;
     d \<leftarrow> get_d ctx i;
     ctx \<leftarrow>
       (if new_state \<noteq> LS_UNKNOWN then do {
          let d = d\<lparr>confidence := 0, failures := 0\<rparr>;
          mo \<leftarrow> mod_offset_at d 0;
          let le_offset =
                sint ((timestamp le - mo) mod word_of_int (LSParam_offset_for_state LS_END));
          new_state1 \<leftarrow> LighthouseState_findByOffset le_offset;
          SetState (put_d ctx i d) i new_state
        } else
          let d = d\<lparr>failures := failures d + 1\<rparr>;
              d = (if failures d > 1000 then d\<lparr>failures := 0\<rparr> else d)
          in Some (put_d ctx i d));
     set_last_timestamp ctx i le
   }"

text \<open>
  The other branch, lines 707 to 721, followed by the last statement of the function unless
  the branch returns. \<^verbatim>\<open>survive_timecode_difference\<close> is declared in a header that is not
  among the sources: it is the parameter \<open>tcd\<close>. The comparison and the division of
  \<open>timediff\<close> with \<^verbatim>\<open>timebase_hz\<close> are unsigned, and the product is stored in the
  \<^verbatim>\<open>int\<close> \<open>penalty\<close>.
\<close>

definition DisambiguatorStateBased_locked ::
  "(u32 \<Rightarrow> u32 \<Rightarrow> u32) \<Rightarrow> SurviveContext \<Rightarrow> nat \<Rightarrow> Disambiguator_data_t \<Rightarrow> LightcapElement
    \<Rightarrow> SurviveContext option" where
  "DisambiguatorStateBased_locked tcd ctx i d le =
    (let timediff = tcd (timestamp le) (last_timestamp d);
         hz :: u32 = word_of_int (timebase_hz (objs ctx ! i))
     in if timediff > hz then
          if hz = 0 then None
          else
            let penalty = sint (timediff div hz * 10)
            in if confidence d < penalty then SetState ctx i LS_UNKNOWN
               else do {
                 ctx \<leftarrow> PropagateState
                          (put_d ctx i (d\<lparr>confidence := confidence d - penalty\<rparr>)) i le;
                 set_last_timestamp ctx i le
               }
        else do {
          ctx \<leftarrow> PropagateState ctx i le;
          set_last_timestamp ctx i le
        })"

text \<open>
  \<^verbatim>\<open>DisambiguatorStateBased\<close>, the entry point for one event of the object \<open>i\<close> of the
  context. \<open>set_last_timestamp\<close> is the last statement of the function; the warm-up branch
  and the loss of lock on a silence return before it.
\<close>

definition DisambiguatorStateBased ::
  "(u32 \<Rightarrow> u32 \<Rightarrow> u32) \<Rightarrow> SurviveContext \<Rightarrow> nat \<Rightarrow> LightcapElement \<Rightarrow> SurviveContext option" where
  "DisambiguatorStateBased tcd ctx i le =
    (if \<not> i < length (objs ctx) then None
     else if sensor_ct (objs ctx ! i) = 0 then Some ctx
     else
       let ctx = DisambiguatorStateBased_alloc ctx i
       in do {
         d \<leftarrow> get_d ctx i;
         if stabalize d < 200 then Some (put_d ctx i (d\<lparr>stabalize := stabalize d + 1\<rparr>))
         else if state d = LS_UNKNOWN then DisambiguatorStateBased_unknown ctx i le
         else DisambiguatorStateBased_locked tcd ctx i d le
       })"

text \<open>A stream of events, each for one object of the context, processed in order.\<close>

fun run ::
  "(u32 \<Rightarrow> u32 \<Rightarrow> u32) \<Rightarrow> SurviveContext \<Rightarrow> (nat \<times> LightcapElement) list \<Rightarrow> SurviveContext option" where
  "run tcd ctx [] = Some ctx"
| "run tcd ctx ((i, le) # evs) =
    (case DisambiguatorStateBased tcd ctx i le of
       None \<Rightarrow> None
     | Some ctx' \<Rightarrow> run tcd ctx' evs)"

text \<open>A context whose objects have not been seen by the disambiguator yet.\<close>

definition new_object :: "nat \<Rightarrow> int \<Rightarrow> SurviveObject" where
  "new_object n hz = \<lparr>sensor_ct = n, timebase_hz = hz, disambiguator_data = None\<rparr>"

definition new_context :: "SurviveObject list \<Rightarrow> SurviveContext" where
  "new_context sos =
    \<lparr>objs = map (\<lambda>so. so\<lparr>disambiguator_data := None\<rparr>) sos,
     disambiguator_data_g = None, lightproc_log = []\<rparr>"

text \<open>
  Modelled from the spec: \<^verbatim>\<open>survive_timecode_difference\<close>, whose definition is not among
  the sources. Section 4.5 of the specification: the difference of the event's timestamp and
  the last timestamp, ``with timecode subtraction handling wraparound''. It is used for the
  concrete event streams below; the theorems on the dispatcher hold for every function in its
  place.
\<close>

definition survive_timecode_difference :: "u32 \<Rightarrow> u32 \<Rightarrow> u32" where
  "survive_timecode_difference most_recent least_recent = most_recent - least_recent"

subsection \<open>The overlap test in the words of the specification\<close>

text \<open>
  The specification's overlap test, for comparison with \<open>overlaps\<close>: the two intervals
  \<open>[timestamp, timestamp + length)\<close> have more in common than half of the length of the
  event with the earlier timestamp.
\<close>

definition spec_overlaps :: "LightcapElement \<Rightarrow> LightcapElement \<Rightarrow> bool" where
  "spec_overlaps a b =
    (let sa = uint (timestamp a); ea = sa + uint (length_le a);
         sb = uint (timestamp b); eb = sb + uint (length_le b);
         common = max 0 (min ea eb - max sa sb);
         earlier = (if sa \<le> sb then a else b)
     in 2 * common > uint (length_le earlier))"

subsection \<open>Closed forms and invariants\<close>

text \<open>
  What \<^verbatim>\<open>SetState\<close> does to the tracker state of the object: \<open>n\<close> is its sensor count and
  \<open>s\<close> the state asked for.
\<close>

definition SetState_d :: "nat \<Rightarrow> nat \<Rightarrow> Disambiguator_data_t \<Rightarrow> Disambiguator_data_t" where
  "SetState_d n s d =
     (let s' = (if s \<ge> LS_END then 1 else s);
          d1 = (if s' = LS_UNKNOWN then d\<lparr>state := s', sync_history := replicate SYNC_HISTORY_LEN zero_le, sync_offset := 0\<rparr> else d\<lparr>state := s'\<rparr>)
      in (ResetSync d1)\<lparr>sweep_data := replicate n zero_le\<rparr>)"

text \<open>
  The context \<open>ctx\<close> with the tracker state of the object \<open>i\<close>, the global data and the log
  of \<^verbatim>\<open>lightproc\<close> calls replaced.
\<close>

definition upd :: "SurviveContext \<Rightarrow> nat \<Rightarrow> Disambiguator_data_t \<Rightarrow> Global_Disambiguator_data_t \<Rightarrow> lightproc_call list \<Rightarrow> SurviveContext" where
  "upd ctx i d g l = (put_d ctx i d)\<lparr>disambiguator_data_g := Some g, lightproc_log := l\<rparr>"

text \<open>
  The invariant of a tracker state, for an object of \<open>n\<close> sensors and tick rate \<open>hz\<close>: the
  state is a phase or \<open>LS_UNKNOWN\<close>; the confidence is at most 100 (for a tick rate for which
  the silence penalty does not overflow); the sync aggregator is empty or, while locked, holds
  a length accepted by \<^verbatim>\<open>RunACodeCapture\<close>; the arrays have their sizes.
\<close>

definition dinv :: "nat \<Rightarrow> int \<Rightarrow> Disambiguator_data_t \<Rightarrow> bool" where
  "dinv n hz d \<longleftrightarrow>
     state d < LS_END
   \<and> (20 \<le> hz \<and> hz < 2 ^ 31 \<longrightarrow> confidence d \<le> 100)
   \<and> 0 \<le> last_sync_count d
   \<and> (last_sync_count d = 0 \<longrightarrow> longest_sync_length d = 0)
   \<and> (state d \<noteq> LS_UNKNOWN \<and> 0 < last_sync_count d \<longrightarrow>
        1500 \<le> uint (longest_sync_length d) \<and> uint (longest_sync_length d) \<le> 7500)
   \<and> sync_offset d < SYNC_HISTORY_LEN
   \<and> length (sync_history d) = SYNC_HISTORY_LEN
   \<and> length (sweep_data d) = n
   \<and> length (mod_offset d) = NUM_LIGHTHOUSES"

text \<open>
  A call of \<^verbatim>\<open>lightproc\<close> is a sweep record, with a sensor index and a positive offset, or a
  sync record, with index code -1 or -2, offset 0 and a length between 1500 and 7500.
\<close>

definition lp_ok :: "lightproc_call \<Rightarrow> bool" where
  "lp_ok c \<longleftrightarrow>
     (0 \<le> lp_sensor_id c \<and> 0 < lp_timeinsweep c)
   \<or> ((lp_sensor_id c = -1 \<or> lp_sensor_id c = -2) \<and> lp_timeinsweep c = 0
       \<and> 1500 \<le> uint (lp_length c) \<and> uint (lp_length c) \<le> 7500)"

definition cinv :: "SurviveContext \<Rightarrow> bool" where
  "cinv ctx \<longleftrightarrow>
     (\<forall>i d. get_d ctx i = Some d \<longrightarrow>
        dinv (sensor_ct (objs ctx ! i)) (timebase_hz (objs ctx ! i)) d)
   \<and> list_all lp_ok (lightproc_log ctx)"

text \<open>What \<^verbatim>\<open>get_best_latest_state\<close> reads of an object.\<close>

definition lockinfo :: "SurviveObject \<Rightarrow> (nat \<times> int) option" where
  "lockinfo so = map_option (\<lambda>d. (state d, confidence d)) (disambiguator_data so)"

subsection \<open>Concrete contexts\<close>

text \<open>
  A tracker state past its warm-up, in the state \<open>s\<close> with confidence \<open>c\<close>, and a context
  with one object of one sensor at 48 MHz.
\<close>

definition tracker :: "nat \<Rightarrow> int \<Rightarrow> Disambiguator_data_t" where
  "tracker s c = (calloc_d 1)\<lparr>stabalize := 200, state := s, confidence := c\<rparr>"

definition one_object :: "Disambiguator_data_t \<Rightarrow> bool \<Rightarrow> SurviveContext" where
  "one_object d m =
    \<lparr>objs = [\<lparr>sensor_ct = 1, timebase_hz = 48000000, disambiguator_data = Some d\<rparr>],
     disambiguator_data_g = Some \<lparr>single_60hz_mode = m\<rparr>, lightproc_log = []\<rparr>"

definition pulse :: "nat \<Rightarrow> nat \<Rightarrow> LightcapElement" where
  "pulse t l = \<lparr>sensor_id = 0, length_le = of_nat l, timestamp = of_nat t\<rparr>"

text \<open>A context with one object of one sensor whose tick rate is 1.\<close>

definition slow_object :: "Disambiguator_data_t \<Rightarrow> SurviveContext" where
  "slow_object d =
    \<lparr>objs = [\<lparr>sensor_ct = 1, timebase_hz = 1, disambiguator_data = Some d\<rparr>],
     disambiguator_data_g = Some \<lparr>single_60hz_mode = False\<rparr>, lightproc_log = []\<rparr>"

subsection \<open>Steps of an object without lock\<close>

text \<open>
  The sync history has an empty entry among its first \<^verbatim>\<open>SYNC_HISTORY_LEN\<close> entries:
  \<^verbatim>\<open>find_inliers\<close> stops there, before it has counted the inliers that a lock needs.
\<close>

definition partial_history :: "Disambiguator_data_t \<Rightarrow> bool" where
  "partial_history d \<longleftrightarrow>
     length (takeWhile (\<lambda>e. length_le e > 0) (take SYNC_HISTORY_LEN (sync_history d))) < SYNC_HISTORY_LEN"

text \<open>
  The tracker state of an object without lock after a sync event that starts a new sync and
  finds no lock: the sync before it goes to the history, the aggregator restarts with the
  event, and the dispatcher counts a failure and stores the timestamp.
\<close>

definition unknown_next :: "Disambiguator_data_t \<Rightarrow> LightcapElement \<Rightarrow> Disambiguator_data_t" where
  "unknown_next d le =
     (let d1 = (if lastWasSync d then AddSyncHistory d (get_last_sync d) else d);
          d2 = RegisterSync (ResetSync d1) le
      in d2\<lparr>lastWasSync := True,
            failures := (if failures d + 1 > 1000 then 0 else failures d + 1),
            last_timestamp := timestamp le\<rparr>)"

text \<open>
  The tracker state after the event on which \<^verbatim>\<open>EndSync\<close> finds the state \<open>s\<close> with the
  offset \<open>md\<close>: both offsets are set, the confidence and the failures are 0, and
  \<^verbatim>\<open>SetState\<close> stores the state.
\<close>

definition lock_next ::
  "nat \<Rightarrow> Disambiguator_data_t \<Rightarrow> nat \<Rightarrow> u32 \<Rightarrow> LightcapElement \<Rightarrow> Disambiguator_data_t" where
  "lock_next n d s md le =
     (SetState_d n s
        ((AddSyncHistory d (get_last_sync d))
           \<lparr>mod_offset := (mod_offset d)[1 := md, 0 := md], confidence := 0, failures := 0\<rparr>))
     \<lparr>last_timestamp := timestamp le\<rparr>"

text \<open>
  No object is locked with a positive confidence: \<^verbatim>\<open>get_best_latest_state\<close> returns
  \<^verbatim>\<open>NULL\<close>.
\<close>

definition no_trusted :: "SurviveContext \<Rightarrow> bool" where
  "no_trusted ctx \<longleftrightarrow>
     list_all (\<lambda>so. case disambiguator_data so of None \<Rightarrow> True
                     | Some d \<Rightarrow> state d = LS_UNKNOWN \<or> confidence d \<le> 0) (objs ctx)"

text \<open>
  What \<^verbatim>\<open>get_last_sync\<close> returns when the aggregator holds the single event \<open>e\<close>: the
  sensor id is \<^verbatim>\<open>-last_sync_count\<close>, stored in the 8 bits of the field.
\<close>

definition agg :: "LightcapElement \<Rightarrow> LightcapElement" where
  "agg e = \<lparr>sensor_id = word_of_int (- 1), length_le = length_le e, timestamp = timestamp e\<rparr>"

text \<open>
  The tracker state of an object of \<open>n\<close> sensors, past its warm-up and without lock, after the
  sync events \<open>s 0\<close>, ..., \<open>s (k - 1)\<close> that do not overlap: the first \<open>k - 1\<close> are in the
  history and the last one is in the aggregator.
\<close>

definition train_state :: "nat \<Rightarrow> (nat \<Rightarrow> LightcapElement) \<Rightarrow> nat \<Rightarrow> Disambiguator_data_t" where
  "train_state n s k =
     (calloc_d n)
       \<lparr>stabalize := 200, lastWasSync := True, failures := int k,
        last_timestamp := timestamp (s (k - 1)),
        sync_history := map (\<lambda>j. agg (s j)) [0 ..< k - 1] @ replicate (SYNC_HISTORY_LEN - (k - 1)) zero_le,
        sync_offset := k - 1,
        first_sync_timestamp := timestamp (s (k - 1)),
        longest_sync_length := ucast (length_le (s (k - 1))),
        last_sync_timestamp := ucast (timestamp (s (k - 1))),
        last_sync_length := ucast (length_le (s (k - 1))),
        last_sync_count := 1\<rparr>"

text \<open>The global data after the allocation on first use.\<close>

definition first_global :: "SurviveContext \<Rightarrow> Global_Disambiguator_data_t" where
  "first_global ctx =
     (case disambiguator_data_g ctx of None \<Rightarrow> \<lparr>single_60hz_mode = False\<rparr> | Some g \<Rightarrow> g)"

text \<open>
  The tracker state \<open>train_state n s SYNC_HISTORY_LEN\<close> after the last sync went to the
  history, which is full then.
\<close>

definition full_history :: "nat \<Rightarrow> (nat \<Rightarrow> LightcapElement) \<Rightarrow> Disambiguator_data_t" where
  "full_history n s =
     (train_state n s SYNC_HISTORY_LEN)
       \<lparr>sync_history := map (\<lambda>j. agg (s j)) [0 ..< SYNC_HISTORY_LEN], sync_offset := 0\<rparr>"

text \<open>The tracker states of the objects other than \<open>j\<close> are the same in both contexts.\<close>

definition others_kept :: "nat \<Rightarrow> SurviveContext \<Rightarrow> SurviveContext \<Rightarrow> bool" where
  "others_kept j c c' \<longleftrightarrow> (\<forall>i. i \<noteq> j \<longrightarrow> get_d c' i = get_d c i)"

subsection \<open>Event streams\<close>

text \<open>
  The syncs of a single lighthouse: one every 400000 ticks, of 2750 and 3250 ticks in turn
  (the acodes 0 and 1 of the phases 2 and 5).
\<close>

definition s60 :: "nat \<Rightarrow> LightcapElement" where
  "s60 k = pulse (20000 + 400000 * k) (if even k then 2750 else 3250)"

text \<open>
  The history that the first 12 syncs of \<open>s60\<close> leave, and the tracker state after the lock
  that the 13th finds: phase 5 with the offset 4000000.
\<close>

definition hist60 :: "LightcapElement list" where
  "hist60 = map (\<lambda>(t, l). \<lparr>sensor_id = 255, length_le = l, timestamp = t\<rparr>)
      [(20000, 2750), (420000, 3250), (820000, 2750), (1220000, 3250), (1620000, 2750),
       (2020000, 3250), (2420000, 2750), (2820000, 3250), (3220000, 2750), (3620000, 3250),
       (4020000, 2750), (4420000, 3250)]"

definition locked60 :: "nat \<Rightarrow> Disambiguator_data_t" where
  "locked60 n = (calloc_d n)\<lparr>stabalize := 200, state := 5, mod_offset := [4000000, 4000000],
      lastWasSync := True, sync_history := hist60, last_timestamp := 4820000\<rparr>"

text \<open>
  The tracker state \<open>locked60 1\<close> after \<open>k\<close> events of 1500 ticks at the timestamp 4820000,
  which fall into the sync phase 2 and are accepted there.
\<close>

definition sync_state :: "nat \<Rightarrow> Disambiguator_data_t" where
  "sync_state k = (locked60 1)\<lparr>state := 2, confidence := int k, last_sync_count := int k,
      first_sync_timestamp := 4820000, longest_sync_length := 1500,
      last_sync_timestamp := of_nat k * 4820000, last_sync_length := of_nat k * 1500\<rparr>"

text \<open>
  The tracker state \<open>locked60 1\<close> after \<open>k\<close> events of 7500 ticks at the timestamp 5200000,
  which fall into the sync phase 4 and are accepted there.
\<close>

definition long_state :: "nat \<Rightarrow> Disambiguator_data_t" where
  "long_state k = (locked60 1)\<lparr>state := 4, confidence := int k, last_sync_count := int k,
      first_sync_timestamp := 5200000, longest_sync_length := 7500,
      last_sync_timestamp := of_nat k * 5200000, last_sync_length := of_nat k * 7500,
      last_timestamp := 5200000\<rparr>"

text \<open>
  Event streams for the object \<open>i\<close>: the 200 events of the warm-up, the first 13 syncs of
  \<open>s\<close>, and both in a row.
\<close>

definition warm :: "nat \<Rightarrow> (nat \<times> LightcapElement) list" where
  "warm i = replicate 200 (i, pulse 0 0)"

definition syncs :: "nat \<Rightarrow> (nat \<Rightarrow> LightcapElement) \<Rightarrow> (nat \<times> LightcapElement) list" where
  "syncs i s = map (\<lambda>j. (i, s j)) [0 ..< Suc SYNC_HISTORY_LEN]"

definition lock_stream :: "nat \<Rightarrow> (nat \<Rightarrow> LightcapElement) \<Rightarrow> (nat \<times> LightcapElement) list" where
  "lock_stream i s = warm i @ syncs i s"

text \<open>
  The syncs of two lighthouses over a cycle of 1600000 ticks (the phases 1, 2, 4, 5, 7, 8, 10
  and 11, each with the length of its acode), the history that the first 12 leave, and the
  tracker state after the lock that the 13th finds: phase 5 with the offset 1600000.
\<close>

definition dual_events :: "(nat \<times> nat) list" where
  "dual_events =
     [(0, 4750), (20000, 2750), (400000, 5250), (420000, 3250), (800000, 2750), (820000, 4750),
      (1200000, 3250), (1220000, 5250), (1600000, 4750), (1620000, 2750), (2000000, 5250),
      (2020000, 3250), (2400000, 2750)]"

definition sdual :: "nat \<Rightarrow> LightcapElement" where
  "sdual k = (case dual_events ! k of (t, l) \<Rightarrow> pulse t l)"

definition histdual :: "LightcapElement list" where
  "histdual = map (\<lambda>(t, l). \<lparr>sensor_id = 255, length_le = l, timestamp = t\<rparr>)
     [(0, 4750), (20000, 2750), (400000, 5250), (420000, 3250), (800000, 2750), (820000, 4750),
      (1200000, 3250), (1220000, 5250), (1600000, 4750), (1620000, 2750), (2000000, 5250),
      (2020000, 3250)]"

definition lockeddual :: "nat \<Rightarrow> Disambiguator_data_t" where
  "lockeddual n = (calloc_d n)\<lparr>stabalize := 200, state := 5, mod_offset := [1600000, 1600000],
      lastWasSync := True, sync_history := histdual, last_timestamp := 2400000\<rparr>"

text \<open>
  A context with three objects of one sensor at 48 MHz, with the tracker states \<open>a\<close>, \<open>b\<close>
  and \<open>c\<close> (\<open>None\<close> before the first event of the object) and the flag \<open>m\<close>.
\<close>

definition three_objects ::
  "Disambiguator_data_t option \<Rightarrow> Disambiguator_data_t option \<Rightarrow> Disambiguator_data_t option \<Rightarrow> bool
    \<Rightarrow> SurviveContext" where
  "three_objects a b c m =
    \<lparr>objs = map (\<lambda>d. \<lparr>sensor_ct = 1, timebase_hz = 48000000, disambiguator_data = d\<rparr>) [a, b, c],
     disambiguator_data_g = Some \<lparr>single_60hz_mode = m\<rparr>, lightproc_log = []\<rparr>"

section \<open>Properties\<close>

subsection \<open>The schedule table, evaluated\<close>

lemma LS_Params_nth:
  "LS_Params ! 0 = LSP 0 (-1) (-1) 0 False"
  "LS_Params ! 1 = LSP 4 1 0 20000 False"
  "LS_Params ! 2 = LSP 0 0 0 20000 False"
  "LS_Params ! 3 = LSP 4 0 0 360000 True"
  "LS_Params ! 4 = LSP 5 1 1 20000 False"
  "LS_Params ! 5 = LSP 1 0 1 20000 False"
  "LS_Params ! 6 = LSP 1 0 1 360000 True"
  "LS_Params ! 7 = LSP 0 1 0 20000 False"
  "LS_Params ! 8 = LSP 4 0 0 20000 False"
  "LS_Params ! 9 = LSP 4 1 0 360000 True"
  "LS_Params ! 10 = LSP 1 1 1 20000 False"
  "LS_Params ! 11 = LSP 5 0 1 20000 False"
  "LS_Params ! 12 = LSP 5 1 1 360000 True"
  "LS_Params ! 13 = LSP 0 (-1) (-1) 0 False"
  by (simp_all add: LS_Params_def PULSE_WINDOW_def CAPTURE_WINDOW_def)

lemma offsets_table:
  "offsets_from 0 LS_Params =
    [0, 0, 20000, 40000, 400000, 420000, 440000, 800000, 820000, 840000,
     1200000, 1220000, 1240000, 1600000]"
  by (simp add: LS_Params_def LSP_def PULSE_WINDOW_def CAPTURE_WINDOW_def)

lemma LSParam_offset_for_state_nth:
  "LSParam_offset_for_state 0 = 0"
  "LSParam_offset_for_state 1 = 0"
  "LSParam_offset_for_state 2 = 20000"
  "LSParam_offset_for_state 3 = 40000"
  "LSParam_offset_for_state 4 = 400000"
  "LSParam_offset_for_state 5 = 420000"
  "LSParam_offset_for_state 6 = 440000"
  "LSParam_offset_for_state 7 = 800000"
  "LSParam_offset_for_state 8 = 820000"
  "LSParam_offset_for_state 9 = 840000"
  "LSParam_offset_for_state 10 = 1200000"
  "LSParam_offset_for_state 11 = 1220000"
  "LSParam_offset_for_state 12 = 1240000"
  "LSParam_offset_for_state 13 = 1600000"
  by (simp_all add: LSParam_offset_for_state_def offsets_table)

lemma LSParam_offset_for_state_Suc:
  "LSParam_offset_for_state (Suc 0) = 0"
  "LSParam_offset_for_state (Suc (Suc 0)) = 20000"
  "LS_Params ! Suc 0 = LSP 4 1 0 20000 False"
  using LSParam_offset_for_state_nth(2,3) LS_Params_nth(2) by (simp_all add: numeral_2_eq_2)

lemma upt_2_14: "[2 ..< LS_END + 1] = [2, 3, 4, 5, 6, 7, 8, 9, 10, 11, 12, 13]"
  by (simp add: LS_END_def upt_rec)

subsection \<open>C1: the rollover branch of the modular offset\<close>

lemma apply_mod_offset_rollover_branch:
  "\<not> t > m \<Longrightarrow> m - t > 0x7FFFFFFF \<Longrightarrow>
   apply_mod_offset t m LS_END = (0xFFFFFFFF - m + t) mod 1600000"
  by (simp add: apply_mod_offset_def LS_END_def LSParam_offset_for_state_nth)

text \<open>
  C1. The rollover law asks that \<open>apply_mod_offset 0x00000100 0xFFFFFF00\<close> over the cycle of
  1600000 ticks equals \<open>apply_mod_offset 0x200 0\<close>, that is \<open>(2^32 - m + t) mod cycle\<close>. The
  rollover branch of the code subtracts from \<open>0xFFFFFFFF\<close>, one less than \<open>2^32\<close>: the first
  value is 511 and the second is 512.
\<close>

theorem apply_mod_offset_rollover_evaluated:
  "apply_mod_offset 0x00000100 0xFFFFFF00 LS_END = 511
   \<and> apply_mod_offset 0x200 0 LS_END = 512
   \<and> (2 ^ 32 - 0xFFFFFF00 + 0x100) mod 1600000 = (512 :: int)"
  by (simp add: apply_mod_offset_def LS_END_def LSParam_offset_for_state_nth)

subsection \<open>C7: the phase of an offset\<close>

text \<open>
  C7, as amended. For an offset inside the phase \<open>k\<close> (from the start of \<open>k\<close> up to the
  start of \<open>k + 1\<close>), the result is \<open>k\<close> or \<open>k + 1\<close>. When \<open>k\<close> is a sweep the result is
  \<open>k\<close>, except within the last 1000 ticks of the sweep, where it is \<open>k + 1\<close>. When \<open>k\<close> is
  a sync phase the result is \<open>k + 1\<close> when its start is strictly nearer than the start of
  \<open>k\<close>, and \<open>k\<close> otherwise. The second component is the distance to the start of the phase
  returned.
\<close>

theorem findByOffset_phase:
  assumes "1 \<le> k" and "k \<le> 12"
      and "LSParam_offset_for_state k \<le> offset"
      and "offset < LSParam_offset_for_state (k + 1)"
  shows "LighthouseState_findByOffset offset =
    Some (if (if is_sweep (LS_Params ! k)
              then LSParam_offset_for_state (k + 1) - offset \<le> 1000
              else offset - LSParam_offset_for_state k
                     > LSParam_offset_for_state (k + 1) - offset)
          then (k + 1, LSParam_offset_for_state (k + 1) - offset)
          else (k, offset - LSParam_offset_for_state k))"
proof -
  from assms(1,2) have "k \<in> {1, 2, 3, 4, 5, 6, 7, 8, 9, 10, 11, 12}"
    by simp presburger
  then show ?thesis
    using assms(3,4)
    unfolding LighthouseState_findByOffset_def upt_2_14
    by (elim insertE emptyE;
        simp add: LSParam_offset_for_state_nth LS_Params_nth LSP_def LSParam_offset_for_state_Suc)
qed

theorem findByOffset_phase_witness:
  "LighthouseState_findByOffset 399500 = Some (4, 500)"
  using findByOffset_phase [of 3 399500]
  by (simp add: LSParam_offset_for_state_nth LS_Params_nth LSP_def)

text \<open>
  The claim as stated fails at the offset 300000: the start of phase 4 (400000) is nearer
  than the start of phase 3 (40000) and phase 4 is not a sweep, yet phase 3 is returned.
\<close>

theorem findByOffset_counterexample:
  "LighthouseState_findByOffset 300000 = Some (3, 260000)
   \<and> \<bar>300000 - LSParam_offset_for_state 4\<bar> < \<bar>300000 - LSParam_offset_for_state 3\<bar>
   \<and> \<not> is_sweep (LS_Params ! 4)"
  unfolding LighthouseState_findByOffset_def upt_2_14
  by (simp add: LSParam_offset_for_state_nth LS_Params_nth LSP_def)

subsection \<open>C3: the overlap test\<close>

lemma uint_len_add:
  fixes l :: u16 and t :: u32
  assumes "uint t + uint l < 2 ^ 32"
  shows "uint (ucast l + t) = uint l + uint t"
proof -
  have "uint (ucast l :: u32) = uint l" by (simp add: uint_up_ucast is_up)
  then show ?thesis using assms by (simp add: uint_add_lem [THEN iffD1])
qed

lemma sint_small:
  fixes x :: u32
  assumes "uint x < 65536"
  shows "sint x = uint x"
proof -
  have "(- (2 ^ 31) :: int) \<le> 0" by simp
  then have lo: "- (2 ^ 31) \<le> uint x" using uint_ge_0 [of x] by (rule order_trans)
  have "(65536 :: int) \<le> 2 ^ 31" by simp
  with assms have hi: "uint x < 2 ^ 31" by (rule less_le_trans)
  have "signed_take_bit 31 (uint x) = uint x"
    using lo hi by (rule signed_take_bit_int_eq_self)
  then show ?thesis by (simp add: sint_uint)
qed

text \<open>
  C3, as amended. For two events whose intervals do not run past \<open>2^32\<close>, \<open>overlaps a b\<close>
  holds exactly when the timestamps differ and the end of the earlier event is beyond the
  start of the later one by more than half of the length of \<open>a\<close>, the first argument,
  whichever of the two is the earlier.
\<close>

theorem overlaps_iff:
  assumes "uint (timestamp a) + uint (length_le a) < 2 ^ 32"
      and "uint (timestamp b) + uint (length_le b) < 2 ^ 32"
  shows "overlaps a b \<longleftrightarrow>
     (uint (timestamp a) < uint (timestamp b)
        \<and> 2 * (uint (timestamp a) + uint (length_le a) - uint (timestamp b)) > uint (length_le a))
   \<or> (uint (timestamp b) < uint (timestamp a)
        \<and> 2 * (uint (timestamp b) + uint (length_le b) - uint (timestamp a)) > uint (length_le a))"
proof -
  let ?ta = "timestamp a" and ?tb = "timestamp b" and ?la = "length_le a" and ?lb = "length_le b"
  have la: "0 \<le> uint ?la" "uint ?la < 65536" and lb: "0 \<le> uint ?lb" "uint ?lb < 65536"
    using uint_lt2p [of ?la] uint_lt2p [of ?lb] by simp_all
  have ea: "uint (ucast ?la + ?ta) = uint ?la + uint ?ta" using assms(1) by (rule uint_len_add)
  have eb: "uint (ucast ?lb + ?tb) = uint ?lb + uint ?tb" using assms(2) by (rule uint_len_add)
  have sub: "uint (x - y) = uint x - uint y" if "y < x" for x y :: u32
    using that by (simp add: uint_sub_lem [THEN iffD1] word_less_def)
  have sa: "sint (ucast ?la + ?ta - ?tb) = uint ?la + uint ?ta - uint ?tb"
    if "?ta < ?tb" "ucast ?la + ?ta > ?tb"
  proof -
    have "uint (ucast ?la + ?ta - ?tb) = uint ?la + uint ?ta - uint ?tb"
      using sub [OF that(2)] ea by simp
    moreover have "uint ?la + uint ?ta - uint ?tb < 65536"
      using that(1) la by (simp add: word_less_def)
    ultimately show ?thesis using sint_small by metis
  qed
  have sb: "sint (ucast ?lb + ?tb - ?ta) = uint ?lb + uint ?tb - uint ?ta"
    if "?tb < ?ta" "ucast ?lb + ?tb > ?ta"
  proof -
    have "uint (ucast ?lb + ?tb - ?ta) = uint ?lb + uint ?tb - uint ?ta"
      using sub [OF that(2)] eb by simp
    moreover have "uint ?lb + uint ?tb - uint ?ta < 65536"
      using that(1) lb by (simp add: word_less_def)
    ultimately show ?thesis using sint_small by metis
  qed
  show ?thesis
  proof (cases "?ta < ?tb")
    case True
    show ?thesis
    proof (cases "ucast ?la + ?ta > ?tb")
      case t2: True
      show ?thesis using True t2 sa [OF True t2] la
        by (simp add: overlaps_def word_less_def) presburger
    next
      case False
      then have "uint ?la + uint ?ta \<le> uint ?tb" using ea by (simp add: word_less_def)
      then show ?thesis using True False la
        by (simp add: overlaps_def word_less_def)
    qed
  next
    case nlt: False
    show ?thesis
    proof (cases "?tb < ?ta \<and> ucast ?lb + ?tb > ?ta")
      case True
      then show ?thesis using nlt sb la
        by (simp add: overlaps_def word_less_def) presburger
    next
      case False
      then have "\<not> uint ?tb < uint ?ta \<or> uint ?lb + uint ?tb \<le> uint ?ta"
        using eb by (auto simp add: word_less_def)
      then have R: "\<not> ((uint ?ta < uint ?tb
          \<and> 2 * (uint ?ta + uint ?la - uint ?tb) > uint ?la)
        \<or> (uint ?tb < uint ?ta \<and> 2 * (uint ?tb + uint ?lb - uint ?ta) > uint ?la))"
        using nlt la(1) unfolding word_less_def by presburger
      have "\<not> overlaps a b" using nlt False by (auto simp add: overlaps_def)
      with R show ?thesis by blast
    qed
  qed
qed

theorem overlaps_iff_witness:
  "overlaps \<lparr>sensor_id = 0, length_le = 3000, timestamp = 1000\<rparr>
            \<lparr>sensor_id = 1, length_le = 3000, timestamp = 1100\<rparr>"
  using overlaps_iff [of "\<lparr>sensor_id = 0, length_le = 3000, timestamp = 1000\<rparr>"
                         "\<lparr>sensor_id = 1, length_le = 3000, timestamp = 1100\<rparr>"]
  by simp

text \<open>
  The claim as stated fails for \<open>a\<close> of length 4 at 100 and \<open>b\<close> of length 103 at 0: the
  intervals share 3 ticks, less than half of the length of the earlier event \<open>b\<close>, and
  \<open>overlaps\<close> holds all the same, since 3 is more than half of the length of \<open>a\<close>.
\<close>

theorem overlaps_counterexample:
  "overlaps \<lparr>sensor_id = 0, length_le = 4, timestamp = 100\<rparr>
            \<lparr>sensor_id = 0, length_le = 103, timestamp = 0\<rparr>
   \<and> \<not> spec_overlaps \<lparr>sensor_id = 0, length_le = 4, timestamp = 100\<rparr>
                       \<lparr>sensor_id = 0, length_le = 103, timestamp = 0\<rparr>"
  by (simp add: overlaps_def spec_overlaps_def)

subsection \<open>The context as a store\<close>

lemma get_d_Some_less: "get_d ctx i = Some d \<Longrightarrow> i < length (objs ctx)"
  by (simp add: get_d_def split: if_splits)

lemma get_d_put_d_same: "i < length (objs ctx) \<Longrightarrow> get_d (put_d ctx i d) i = Some d"
  by (simp add: get_d_def put_d_def)

lemma get_d_put_d_other: "j \<noteq> i \<Longrightarrow> get_d (put_d ctx i d) j = get_d ctx j"
  by (simp add: get_d_def put_d_def)

lemma put_d_fields [simp]:
  "length (objs (put_d ctx i d)) = length (objs ctx)"
  "disambiguator_data_g (put_d ctx i d) = disambiguator_data_g ctx"
  "lightproc_log (put_d ctx i d) = lightproc_log ctx"
  by (simp_all add: put_d_def)

lemma put_d_sensor_ct [simp]:
  "sensor_ct (objs (put_d ctx i d) ! j) = sensor_ct (objs ctx ! j)"
  by (cases "i < length (objs ctx)"; cases "j = i") (simp_all add: put_d_def list_update_beyond)

lemma put_d_timebase_hz [simp]:
  "timebase_hz (objs (put_d ctx i d) ! j) = timebase_hz (objs ctx ! j)"
  by (cases "i < length (objs ctx)"; cases "j = i") (simp_all add: put_d_def list_update_beyond)

lemma get_d_g_update [simp]: "get_d (ctx\<lparr>disambiguator_data_g := x\<rparr>) i = get_d ctx i"
  by (simp add: get_d_def)

lemma put_d_g_update: "put_d (ctx\<lparr>disambiguator_data_g := x\<rparr>) i d = (put_d ctx i d)\<lparr>disambiguator_data_g := x\<rparr>"
  by (simp add: put_d_def)

lemma put_d_put_d [simp]: "put_d (put_d ctx i d) i d' = put_d ctx i d'"
  by (cases "i < length (objs ctx)") (simp_all add: put_d_def list_update_beyond)

lemma lightproc_fields [simp]:
  "objs (lightproc ctx c) = objs ctx"
  "disambiguator_data_g (lightproc ctx c) = disambiguator_data_g ctx"
  "get_d (lightproc ctx c) i = get_d ctx i"
  by (simp_all add: lightproc_def get_d_def)

lemma SetState_Some:
  assumes "get_d ctx i = Some d" "disambiguator_data_g ctx = Some g"
  shows "\<exists>g'. SetState ctx i s = Some ((put_d ctx i (SetState_d (sensor_ct (objs ctx ! i)) s d))\<lparr>disambiguator_data_g := Some g'\<rparr>)
     \<and> (g' = g \<or> ((if s \<ge> LS_END then 1 else s) = LS_UNKNOWN \<and> g' = g\<lparr>single_60hz_mode := False\<rparr>))"
  using assms get_d_Some_less [OF assms(1)]
  by (auto simp add: SetState_def SetState_d_def Let_def put_d_g_update)

lemma SetState_d_fields [simp]:
  "confidence (SetState_d n s d) = confidence d"
  "last_timestamp (SetState_d n s d) = last_timestamp d"
  "state (SetState_d n s d) = (if s \<ge> LS_END then 1 else s)"
  "last_sync_count (SetState_d n s d) = 0"
  "longest_sync_length (SetState_d n s d) = 0"
  "length (sweep_data (SetState_d n s d)) = n"
  "mod_offset (SetState_d n s d) = mod_offset d"
  "stabalize (SetState_d n s d) = stabalize d"
  by (simp_all add: SetState_d_def Let_def ResetSync_def)

lemma upd_fields [simp]:
  "length (objs (upd ctx i d g l)) = length (objs ctx)"
  "disambiguator_data_g (upd ctx i d g l) = Some g"
  "lightproc_log (upd ctx i d g l) = l"
  "sensor_ct (objs (upd ctx i d g l) ! j) = sensor_ct (objs ctx ! j)"
  "timebase_hz (objs (upd ctx i d g l) ! j) = timebase_hz (objs ctx ! j)"
  by (simp_all add: upd_def)

lemma get_d_upd_same: "i < length (objs ctx) \<Longrightarrow> get_d (upd ctx i d g l) i = Some d"
  by (simp add: upd_def get_d_def put_d_def)

lemma get_d_upd_other: "j \<noteq> i \<Longrightarrow> get_d (upd ctx i d g l) j = get_d ctx j"
  by (simp add: upd_def get_d_def put_d_def)

lemma upd_upd [simp]: "upd (upd ctx i d g l) i d' g' l' = upd ctx i d' g' l'"
  by (cases "i < length (objs ctx)") (simp_all add: upd_def put_d_def list_update_beyond)

lemma put_d_upd [simp]: "put_d (upd ctx i d g l) i d' = upd ctx i d' g l"
  by (cases "i < length (objs ctx)") (simp_all add: upd_def put_d_def list_update_beyond)

lemma upd_g_update [simp]:
  "(upd ctx i d g l)\<lparr>disambiguator_data_g := Some g'\<rparr> = upd ctx i d g' l"
  by (simp add: upd_def)

lemma lightproc_upd [simp]: "lightproc (upd ctx i d g l) c = upd ctx i d g (l @ [c])"
  by (simp add: upd_def lightproc_def put_d_def)

lemma upd_self:
  "get_d ctx i = Some d \<Longrightarrow> disambiguator_data_g ctx = Some g \<Longrightarrow>
   upd ctx i d g (lightproc_log ctx) = ctx"
  by (simp add: upd_def put_d_def get_d_def list_update_same_conv split: if_splits)

lemma put_d_as_upd:
  "disambiguator_data_g ctx = Some g \<Longrightarrow> put_d ctx i d = upd ctx i d g (lightproc_log ctx)"
  by (simp add: upd_def)

lemma upd_put_d:
  "(put_d ctx i d)\<lparr>disambiguator_data_g := Some g\<rparr> = upd ctx i d g (lightproc_log ctx)"
  by (simp add: upd_def put_d_def)

lemma cinv_upd:
  assumes "cinv ctx" and "dinv (sensor_ct (objs ctx ! i)) (timebase_hz (objs ctx ! i)) d"
      and "list_all lp_ok l"
  shows "cinv (upd ctx i d g l)"
  unfolding cinv_def
proof (intro conjI allI impI)
  fix j d' assume g: "get_d (upd ctx i d g l) j = Some d'"
  show "dinv (sensor_ct (objs (upd ctx i d g l) ! j)) (timebase_hz (objs (upd ctx i d g l) ! j)) d'"
  proof (cases "j = i")
    case True
    with g have "i < length (objs ctx)" by (auto dest: get_d_Some_less)
    with g True assms(2) show ?thesis by (simp add: get_d_upd_same)
  next
    case False
    with g assms(1) show ?thesis by (simp add: get_d_upd_other cinv_def)
  qed
next
  show "list_all lp_ok (lightproc_log (upd ctx i d g l))" using assms(3) by simp
qed

lemma cinv_get:
  "cinv ctx \<Longrightarrow> get_d ctx i = Some d \<Longrightarrow>
   dinv (sensor_ct (objs ctx ! i)) (timebase_hz (objs ctx ! i)) d"
  by (simp add: cinv_def)

lemma cinv_log: "cinv ctx \<Longrightarrow> list_all lp_ok (lightproc_log ctx)"
  by (simp add: cinv_def)

lemma dinv_AddSyncHistory: "dinv n hz d \<Longrightarrow> dinv n hz (AddSyncHistory d s)"
  by (auto simp add: dinv_def AddSyncHistory_def Let_def SYNC_HISTORY_LEN_def)

lemma dinv_ResetSync: "dinv n hz d \<Longrightarrow> dinv n hz (ResetSync d)"
  by (simp add: dinv_def ResetSync_def)

lemma dinv_RegisterSync_unknown:
  "dinv n hz d \<Longrightarrow> state d = LS_UNKNOWN \<Longrightarrow> dinv n hz (RegisterSync d le)"
  by (auto simp add: dinv_def RegisterSync_def Let_def)

lemma ucast_len_uint: "uint (ucast (l :: u16) :: u32) = uint l"
  by (simp add: uint_up_ucast is_up)

lemma dinv_RegisterSync_locked:
  assumes "dinv n hz d" and "1500 \<le> uint (length_le le)" and "uint (length_le le) \<le> 7500"
  shows "dinv n hz (RegisterSync d le)"
proof -
  have "uint (0 :: u32) = 0" by simp
  then show ?thesis
    using assms ucast_len_uint [of "length_le le"]
    by (auto simp add: dinv_def RegisterSync_def Let_def word_less_def)
qed

lemma dinv_SetState_d: "dinv n hz d \<Longrightarrow> dinv n hz (SetState_d n s d)"
  by (auto simp add: dinv_def SetState_d_def Let_def ResetSync_def LS_END_def LS_UNKNOWN_def)

lemma dinv_simple_updates:
  "dinv n hz (d\<lparr>lastWasSync := b\<rparr>) = dinv n hz d"
  "dinv n hz (d\<lparr>failures := f\<rparr>) = dinv n hz d"
  "dinv n hz (d\<lparr>stabalize := k\<rparr>) = dinv n hz d"
  "dinv n hz (d\<lparr>last_timestamp := t\<rparr>) = dinv n hz d"
  by (simp_all add: dinv_def)

lemma dinv_confidence_le:
  "dinv n hz d \<Longrightarrow> c \<le> confidence d \<or> c \<le> 100 \<Longrightarrow> dinv n hz (d\<lparr>confidence := c\<rparr>)"
  by (auto simp add: dinv_def)

lemma SetState_upd:
  assumes "get_d ctx i = Some d" "disambiguator_data_g ctx = Some g"
  shows "\<exists>g'. SetState ctx i s = Some (upd ctx i (SetState_d (sensor_ct (objs ctx ! i)) s d) g' (lightproc_log ctx))
     \<and> (g' = g \<or> ((if s \<ge> LS_END then 1 else s) = LS_UNKNOWN \<and> g' = g\<lparr>single_60hz_mode := False\<rparr>))"
  using SetState_Some [OF assms, of s] by (auto simp add: upd_put_d)

subsection \<open>Accepted sync lengths\<close>

lemma and_1_bounds: "0 \<le> (a :: int) AND 1" "(a :: int) AND 1 \<le> 1"
  by (simp_all add: and_one_eq)

lemma ACODE_TIMING_bounds: "2750 \<le> ACODE_TIMING a" "ACODE_TIMING a \<le> 6250"
  using and_1_bounds [of a] and_1_bounds [of "drop_bit 1 a"] and_1_bounds [of "drop_bit 2 a"]
  unfolding ACODE_TIMING_def by linarith+

lemma uint_word_of_int_small:
  "0 \<le> k \<Longrightarrow> k < 2 ^ 32 \<Longrightarrow> uint (word_of_int k :: u32) = k"
  by (simp add: uint_word_of_int take_bit_int_eq_self)

lemma calculate_error_le:
  assumes "\<not> calculate_error ac le > 1250"
  shows "1500 \<le> uint (length_le le) \<and> uint (length_le le) \<le> 7500"
proof -
  let ?l = "uint (length_le le)"
  have l: "0 \<le> ?l" "?l < 65536" using uint_lt2p [of "length_le le"] by simp_all
  have e: "uint (word_of_int \<bar>ACODE_TIMING a - ?l\<bar> :: u32) = \<bar>ACODE_TIMING a - ?l\<bar>" for a
  proof -
    have "\<bar>ACODE_TIMING a - ?l\<bar> < 4294967296"
      using l ACODE_TIMING_bounds [of a] by linarith
    then show ?thesis by (simp add: uint_word_of_int take_bit_int_eq_self)
  qed
  have "\<bar>ACODE_TIMING ac - ?l\<bar> \<le> 1250 \<or> \<bar>ACODE_TIMING (ac OR DATA_BIT) - ?l\<bar> \<le> 1250"
    using assms e [of ac] e [of "ac OR DATA_BIT"]
    by (auto simp add: calculate_error_def Let_def word_less_def word_le_def not_less split: if_splits)
  then show ?thesis
    using ACODE_TIMING_bounds [of ac] ACODE_TIMING_bounds [of "ac OR DATA_BIT"] by linarith
qed


lemma RunACodeCapture_upd:
  assumes "get_d ctx i = Some d" and "disambiguator_data_g ctx = Some g"
  shows "\<exists>d' g'. RunACodeCapture ctx i ac le = Some (upd ctx i d' g' (lightproc_log ctx))
           \<and> (dinv (sensor_ct (objs ctx ! i)) hz d \<longrightarrow> dinv (sensor_ct (objs ctx ! i)) hz d')
           \<and> (state d' = state d \<or> state d' = LS_UNKNOWN)"
proof -
  let ?n = "sensor_ct (objs ctx ! i)"
  have i: "i < length (objs ctx)" using assms(1) by (rule get_d_Some_less)
  show ?thesis
  proof (cases "uint (length_le le) < 400")
    case True
    then show ?thesis
      by (intro exI [of _ d] exI [of _ g]) (simp add: RunACodeCapture_def upd_self [OF assms])
  next
    case big: False
    show ?thesis
    proof (cases "calculate_error ac le > 1250")
      case err: True
      show ?thesis
      proof (cases "confidence d < 3")
        case True
        let ?d' = "(SetState_d ?n LS_UNKNOWN d)\<lparr>confidence := confidence d - 3\<rparr>"
        from SetState_upd [OF assms, of LS_UNKNOWN] obtain g' where
          s: "SetState ctx i LS_UNKNOWN = Some (upd ctx i (SetState_d ?n LS_UNKNOWN d) g' (lightproc_log ctx))"
          by blast
        have "dinv ?n hz d \<longrightarrow> dinv ?n hz ?d'"
          by (auto intro!: dinv_confidence_le dinv_SetState_d)
        moreover have "RunACodeCapture ctx i ac le = Some (upd ctx i ?d' g' (lightproc_log ctx))"
          using big err True i assms by (simp add: RunACodeCapture_def s get_d_upd_same)
        moreover have "state ?d' = LS_UNKNOWN" by (simp add: LS_END_def LS_UNKNOWN_def)
        ultimately show ?thesis by blast
      next
        case False
        let ?d' = "d\<lparr>confidence := confidence d - 3\<rparr>"
        have "dinv ?n hz d \<longrightarrow> dinv ?n hz ?d'"
          by (auto intro!: dinv_confidence_le)
        moreover have "RunACodeCapture ctx i ac le = Some (upd ctx i ?d' g (lightproc_log ctx))"
          using big err False assms by (simp add: RunACodeCapture_def put_d_as_upd)
        moreover have "state ?d' = state d" by simp
        ultimately show ?thesis by blast
      qed
    next
      case ok: False
      from calculate_error_le [OF ok]
      have r: "1500 \<le> uint (length_le le)" "uint (length_le le) \<le> 7500" by simp_all
      let ?d' = "RegisterSync (if confidence d < 100 then d\<lparr>confidence := confidence d + 1\<rparr> else d) le"
      have "dinv ?n hz d \<longrightarrow> dinv ?n hz ?d'"
        using r by (auto intro!: dinv_RegisterSync_locked dinv_confidence_le)
      moreover have "state ?d' = state d"
        by (simp add: RegisterSync_def Let_def)
      moreover have "RunACodeCapture ctx i ac le = Some (upd ctx i ?d' g (lightproc_log ctx))"
        using big ok assms by (simp add: RunACodeCapture_def put_d_as_upd Let_def)
      ultimately show ?thesis by blast
    qed
  qed
qed

subsection \<open>The lock finder\<close>

lemma get_best_latest_state_loop_cong:
  "map lockinfo sos = map lockinfo sos' \<Longrightarrow>
   get_best_latest_state_loop sos k m b = get_best_latest_state_loop sos' k m b"
proof (induction sos arbitrary: sos' k m b)
  case Nil
  then show ?case by simp
next
  case (Cons so sos)
  then obtain so' rest where s: "sos' = so' # rest" by (cases sos') auto
  with Cons.prems have h: "lockinfo so = lockinfo so'" and t: "map lockinfo sos = map lockinfo rest"
    by simp_all
  show ?case using h Cons.IH [OF t] unfolding s
    by (cases "disambiguator_data so"; cases "disambiguator_data so'") (auto simp add: lockinfo_def)
qed

lemma get_best_latest_state_put_d:
  assumes "get_d ctx i = Some d" and "state d' = state d" and "confidence d' = confidence d"
  shows "get_best_latest_state (put_d ctx i d') = get_best_latest_state ctx"
proof -
  have i: "i < length (objs ctx)" using assms(1) by (rule get_d_Some_less)
  have "map lockinfo (objs (put_d ctx i d')) = map lockinfo (objs ctx)"
    using assms i
    by (auto simp add: put_d_def get_d_def lockinfo_def list_eq_iff_nth_eq nth_list_update)
  then show ?thesis unfolding get_best_latest_state_def by (rule get_best_latest_state_loop_cong)
qed

lemma find_relative_offset_modes_has_best:
  "find_relative_offset_modes d True m gm ts = Some (Some t) \<Longrightarrow> t = (if m then 1 else 0)"
  by (induction ts) (auto split: if_splits option.splits)

lemma find_relative_offset_guesses_result:
  "find_relative_offset_guesses d hb m re ac gs = Some (s, md, b) \<Longrightarrow>
   (s = LS_UNKNOWN \<or> s \<in> set gs) \<and> (hb \<longrightarrow> s \<noteq> LS_UNKNOWN \<longrightarrow> b = m)"
proof (induction gs)
  case Nil
  then show ?case by simp
next
  case (Cons guess gs)
  show ?case
  proof (cases "LSParam_acode guess = ac \<and> \<not> is_sweep (LS_Params ! guess)")
    case False
    with Cons show ?thesis by auto
  next
    case True
    with Cons.prems obtain gm r where
      gm: "SolveForMod_Offset guess re = Some gm" and
      r: "find_relative_offset_modes d hb m gm [0 ..< (if guess \<ge> LS_WaitLHB_ACode0 then 1 else 2)] = Some r"
      by (auto split: option.splits)
    show ?thesis
    proof (cases r)
      case None
      with Cons True gm r show ?thesis by auto
    next
      case (Some t)
      with Cons.prems True gm r have e: "s = guess" "b = (t = 1)" by auto
      have "hb \<Longrightarrow> t = (if m then 1 else 0)"
        using r Some find_relative_offset_modes_has_best [of d m gm _ t] by auto
      with e show ?thesis by auto
    qed
  qed
qed

lemma find_relative_offset_result:
  assumes "find_relative_offset ctx i = Some (s, md, b)" and "disambiguator_data_g ctx = Some g"
  shows "s < LS_END \<and> (get_best_latest_state ctx \<noteq> None \<longrightarrow> s \<noteq> LS_UNKNOWN \<longrightarrow> b = single_60hz_mode g)"
proof -
  from assms obtain d where "get_d ctx i = Some d" and
    r: "find_relative_offset_guesses d (get_best_latest_state ctx \<noteq> None) (single_60hz_mode g)
          (sync_history d ! ((sync_offset d + (SYNC_HISTORY_LEN - 1)) mod SYNC_HISTORY_LEN))
          (find_acode (ucast (length_le (sync_history d ! ((sync_offset d + (SYNC_HISTORY_LEN - 1)) mod SYNC_HISTORY_LEN)))) AND 5)
          [LS_UNKNOWN + 1 ..< LS_END] = Some (s, md, b)"
    by (auto simp add: find_relative_offset_def Let_def bind_eq_Some_conv)
  from find_relative_offset_guesses_result [OF r] show ?thesis
    by (auto simp add: LS_UNKNOWN_def LS_END_def)
qed

lemma EndSync_upd:
  assumes "EndSync ctx i = Some (ctx', s)" and "get_d ctx i = Some d"
      and "disambiguator_data_g ctx = Some g"
  shows "\<exists>d' g'. ctx' = upd ctx i d' g' (lightproc_log ctx)
           \<and> (dinv n hz d \<longrightarrow> dinv n hz d')
           \<and> state d' = state d \<and> confidence d' = confidence d
           \<and> lastWasSync d' = lastWasSync d
           \<and> stabalize d' = stabalize d
           \<and> s < LS_END
           \<and> (get_best_latest_state ctx \<noteq> None \<longrightarrow> g' = g)"
proof -
  let ?d1 = "AddSyncHistory d (get_last_sync d)"
  let ?c1 = "put_d ctx i ?d1"
  have i: "i < length (objs ctx)" using assms(2) by (rule get_d_Some_less)
  have f1: "state ?d1 = state d" "confidence ?d1 = confidence d" "lastWasSync ?d1 = lastWasSync d"
    "stabalize ?d1 = stabalize d"
    by (simp_all add: AddSyncHistory_def Let_def)
  have c1: "?c1 = upd ctx i ?d1 g (lightproc_log ctx)" using assms(3) by (rule put_d_as_upd)
  have best: "get_best_latest_state ?c1 = get_best_latest_state ctx"
    using assms(2) f1(1,2) by (rule get_best_latest_state_put_d)
  from assms obtain s0 md b where
    fr: "find_relative_offset ?c1 i = Some (s0, md, b)"
    by (auto simp add: EndSync_def Let_def bind_eq_Some_conv)
  from find_relative_offset_result [OF fr] assms(3) best
  have r: "s0 < LS_END" "get_best_latest_state ctx \<noteq> None \<longrightarrow> s0 \<noteq> LS_UNKNOWN \<longrightarrow> b = single_60hz_mode g"
    by simp_all
  show ?thesis
  proof (cases "s0 \<noteq> LS_UNKNOWN")
    case False
    then have "ctx' = ?c1" "s = LS_UNKNOWN" using assms fr
      by (auto simp add: EndSync_def Let_def)
    moreover have "LS_UNKNOWN < LS_END" by (simp add: LS_UNKNOWN_def LS_END_def)
    ultimately show ?thesis using c1 f1 dinv_AddSyncHistory [of n hz d "get_last_sync d"]
      by (intro exI [of _ ?d1] exI [of _ g]) simp
  next
    case True
    let ?d2 = "?d1\<lparr>mod_offset := (mod_offset ?d1)[1 := md, 0 := md]\<rparr>"
    let ?g2 = "g\<lparr>single_60hz_mode := b\<rparr>"
    from True have e: "ctx' = upd ctx i ?d2 ?g2 (lightproc_log ctx)" "s = s0" using assms fr c1
      by (auto simp add: EndSync_def Let_def split: if_splits)
    have "dinv n hz d \<longrightarrow> dinv n hz ?d2"
      using dinv_AddSyncHistory [of n hz d "get_last_sync d"] by (auto simp add: dinv_def)
    moreover have "get_best_latest_state ctx \<noteq> None \<longrightarrow> ?g2 = g" using r(2) True by auto
    ultimately show ?thesis using e r(1) f1
      by (intro exI [of _ ?d2] exI [of _ ?g2]) simp
  qed
qed

subsection \<open>Finding the state\<close>

lemma LS_UNKNOWN_less_END: "LS_UNKNOWN < LS_END"
  by (simp add: LS_UNKNOWN_def LS_END_def)

lemma RegisterSync_fields [simp]:
  "state (RegisterSync d le) = state d"
  "stabalize (RegisterSync d le) = stabalize d"
  "confidence (RegisterSync d le) = confidence d"
  by (simp_all add: RegisterSync_def Let_def)

lemma ResetSync_fields [simp]:
  "state (ResetSync d) = state d"
  "stabalize (ResetSync d) = stabalize d"
  "confidence (ResetSync d) = confidence d"
  by (simp_all add: ResetSync_def)

lemma AttemptFindState_after_EndSync:
  assumes es: "EndSync ctx i = Some (c1, s1)"
      and d: "get_d ctx i = Some d" and g: "disambiguator_data_g ctx = Some g"
      and st: "state d = LS_UNKNOWN"
      and f: "\<And>x. state (f x) = state x \<and> stabalize (f x) = stabalize x
                  \<and> (state x = LS_UNKNOWN \<longrightarrow> dinv n hz x \<longrightarrow> dinv n hz (f x))"
      and r: "(if s1 \<noteq> LS_UNKNOWN then Some (c1, s1)
               else do { d \<leftarrow> get_d c1 i; Some (put_d c1 i (f d), LS_UNKNOWN) }) = Some (ctx', s)"
  shows "\<exists>d' g'. ctx' = upd ctx i d' g' (lightproc_log ctx)
           \<and> (dinv n hz d \<longrightarrow> dinv n hz d')
           \<and> state d' = LS_UNKNOWN \<and> stabalize d' = stabalize d \<and> s < LS_END
           \<and> (get_best_latest_state ctx \<noteq> None \<longrightarrow> g' = g)"
proof -
  have i: "i < length (objs ctx)" using d by (rule get_d_Some_less)
  from EndSync_upd [OF es d g, of n hz] obtain d1 g1 where
    c1: "c1 = upd ctx i d1 g1 (lightproc_log ctx)" and
    p: "dinv n hz d \<longrightarrow> dinv n hz d1" "state d1 = state d" "stabalize d1 = stabalize d"
       "s1 < LS_END" "get_best_latest_state ctx \<noteq> None \<longrightarrow> g1 = g"
    by blast
  show ?thesis
  proof (cases "s1 \<noteq> LS_UNKNOWN")
    case True
    with r have "ctx' = c1" "s = s1" by simp_all
    then show ?thesis using c1 p st by (intro exI [of _ d1] exI [of _ g1]) simp
  next
    case False
    with r c1 i have "ctx' = upd ctx i (f d1) g1 (lightproc_log ctx)" "s = LS_UNKNOWN"
      by (simp_all add: get_d_upd_same)
    then show ?thesis using p st f [of d1] LS_UNKNOWN_less_END
      by (intro exI [of _ "f d1"] exI [of _ g1]) simp
  qed
qed

lemma AttemptFindState_upd:
  assumes a: "AttemptFindState ctx i le = Some (ctx', s)"
      and d: "get_d ctx i = Some d" and g: "disambiguator_data_g ctx = Some g"
      and st: "state d = LS_UNKNOWN"
  shows "\<exists>d' g'. ctx' = upd ctx i d' g' (lightproc_log ctx)
           \<and> (dinv n hz d \<longrightarrow> dinv n hz d')
           \<and> state d' = LS_UNKNOWN \<and> stabalize d' = stabalize d \<and> s < LS_END
           \<and> (get_best_latest_state ctx \<noteq> None \<longrightarrow> g' = g)"
proof -
  let ?reg = "\<lambda>x. (RegisterSync (ResetSync x) le)\<lparr>lastWasSync := True\<rparr>"
  let ?off = "\<lambda>x. x\<lparr>lastWasSync := False\<rparr>"
  have reg: "state (?reg x) = state x \<and> stabalize (?reg x) = stabalize x
             \<and> (state x = LS_UNKNOWN \<longrightarrow> dinv n hz x \<longrightarrow> dinv n hz (?reg x))" for x
    by (simp add: dinv_simple_updates dinv_RegisterSync_unknown dinv_ResetSync)
  have off: "state (?off x) = state x \<and> stabalize (?off x) = stabalize x
             \<and> (state x = LS_UNKNOWN \<longrightarrow> dinv n hz x \<longrightarrow> dinv n hz (?off x))" for x
    by (simp add: dinv_simple_updates)
  have direct: ?thesis if "ctx' = put_d ctx i (f d)" "s = LS_UNKNOWN"
    "state (f d) = state d \<and> stabalize (f d) = stabalize d
       \<and> (state d = LS_UNKNOWN \<longrightarrow> dinv n hz d \<longrightarrow> dinv n hz (f d))" for f
    using that st LS_UNKNOWN_less_END put_d_as_upd [OF g, of i "f d"]
    by (intro exI [of _ "f d"] exI [of _ g]) simp
  show ?thesis
  proof (cases "naive_classify le = LCC_SYNC")
    case sync: True
    show ?thesis
    proof (cases "\<not> lastWasSync d \<or> \<not> overlaps (get_last_sync d) le")
      case new: True
      show ?thesis
      proof (cases "lastWasSync d")
        case True
        with a d sync new obtain c1 s1 where es: "EndSync ctx i = Some (c1, s1)" and
          r: "(if s1 \<noteq> LS_UNKNOWN then Some (c1, s1)
               else do { d \<leftarrow> get_d c1 i; Some (put_d c1 i (?reg d), LS_UNKNOWN) }) = Some (ctx', s)"
          by (auto simp add: AttemptFindState_def Let_def bind_eq_Some_conv split: if_splits)
        from AttemptFindState_after_EndSync [OF es d g st reg r] show ?thesis .
      next
        case False
        with a d sync new have "ctx' = put_d ctx i (?reg d)" "s = LS_UNKNOWN"
          by (auto simp add: AttemptFindState_def Let_def EndSweep_def)
        then show ?thesis using reg [of d] by (rule direct)
      qed
    next
      case False
      let ?f = "\<lambda>x. (RegisterSync x le)\<lparr>lastWasSync := True\<rparr>"
      from False a d sync have "ctx' = put_d ctx i (?f d)" "s = LS_UNKNOWN"
        by (auto simp add: AttemptFindState_def Let_def)
      moreover have "state (?f d) = state d \<and> stabalize (?f d) = stabalize d
         \<and> (state d = LS_UNKNOWN \<longrightarrow> dinv n hz d \<longrightarrow> dinv n hz (?f d))"
        by (simp add: dinv_simple_updates dinv_RegisterSync_unknown)
      ultimately show ?thesis by (rule direct)
    qed
  next
    case sweep: False
    show ?thesis
    proof (cases "lastWasSync d")
      case True
      with a d sweep obtain c1 s1 where es: "EndSync ctx i = Some (c1, s1)" and
        r: "(if s1 \<noteq> LS_UNKNOWN then Some (c1, s1)
             else do { d \<leftarrow> get_d c1 i; Some (put_d c1 i (?off d), LS_UNKNOWN) }) = Some (ctx', s)"
        by (auto simp add: AttemptFindState_def Let_def bind_eq_Some_conv split: if_splits)
      from AttemptFindState_after_EndSync [OF es d g st off r] show ?thesis .
    next
      case False
      with a d sweep have "ctx' = put_d ctx i (?off d)" "s = LS_UNKNOWN"
        by (auto simp add: AttemptFindState_def Let_def)
      then show ?thesis using off [of d] by (rule direct)
    qed
  qed
qed

subsection \<open>Leaving a phase\<close>

lemma upd_self_log:
  "get_d ctx i = Some d \<Longrightarrow> disambiguator_data_g ctx = Some g \<Longrightarrow>
   ctx\<lparr>lightproc_log := l\<rparr> = upd ctx i d g l"
proof -
  assume a: "get_d ctx i = Some d" "disambiguator_data_g ctx = Some g"
  have "ctx\<lparr>lightproc_log := l\<rparr> = (upd ctx i d g (lightproc_log ctx))\<lparr>lightproc_log := l\<rparr>"
    by (simp only: upd_self [OF a])
  then show ?thesis by (simp add: upd_def)
qed

lemma ProcessStateChange_sweeps_log:
  "ProcessStateChange_sweeps ctx i d e mn mx l xs = Some ctx' \<Longrightarrow>
   \<exists>ls. ctx' = ctx\<lparr>lightproc_log := lightproc_log ctx @ ls\<rparr> \<and> list_all lp_ok ls"
proof (induction xs arbitrary: ctx)
  case Nil
  then show ?case by (intro exI [of _ "[]"]) simp
next
  case (Cons x xs)
  obtain k le where x: "x = (k, le)" by (cases x)
  let ?hit = "length_le le > 0 \<and> unat (length_le le) \<ge> mn \<and> unat (length_le le) \<le> mx"
  show ?case
  proof (cases ?hit)
    case False
    with Cons.prems x have "ProcessStateChange_sweeps ctx i d e mn mx l xs = Some ctx'" by simp
    from Cons.IH [OF this] show ?thesis .
  next
    case True
    with Cons.prems x obtain mo where mo: "mod_offset_at d l = Some mo"
      by (auto split: option.splits)
    let ?off = "sint (apply_mod_offset (timestamp le + word_of_int (uint (length_le le) div 2)) mo e)
                 - LSParam_offset_for_state (state d) + 20000"
    let ?c = "\<lparr>lp_so = i, lp_sensor_id = int k, lp_acode = LSParam_acode (state d),
               lp_timeinsweep = ?off, lp_timecode = timestamp le,
               lp_length = ucast (length_le le), lp_lh = l\<rparr>"
    from Cons.prems x True mo have pos: "?off > 0"
      by (auto simp add: Let_def split: if_splits)
    have ok: "lp_ok ?c" using pos by (simp add: lp_ok_def)
    show ?thesis
    proof (cases "confidence d > 80")
      case c: True
      with Cons.prems x True mo pos
      have "ProcessStateChange_sweeps (lightproc ctx ?c) i d e mn mx l xs = Some ctx'"
        by (simp add: Let_def)
      from Cons.IH [OF this] obtain ls where
        "ctx' = (lightproc ctx ?c)\<lparr>lightproc_log := lightproc_log (lightproc ctx ?c) @ ls\<rparr>"
        "list_all lp_ok ls" by blast
      then show ?thesis using ok
        by (intro exI [of _ "?c # ls"]) (simp add: lightproc_def)
    next
      case c: False
      with Cons.prems x True mo pos
      have "ProcessStateChange_sweeps ctx i d e mn mx l xs = Some ctx'"
        by (simp add: Let_def)
      from Cons.IH [OF this] show ?thesis .
    qed
  qed
qed

lemma AddSyncHistory_fields [simp]:
  "state (AddSyncHistory d s) = state d"
  "confidence (AddSyncHistory d s) = confidence d"
  "mod_offset (AddSyncHistory d s) = mod_offset d"
  "stabalize (AddSyncHistory d s) = stabalize d"
  by (simp_all add: AddSyncHistory_def Let_def)

lemma lh_nonneg_locked:
  assumes "0 \<le> lh (LS_Params ! st)"
  shows "st \<noteq> LS_UNKNOWN"
proof
  assume "st = LS_UNKNOWN"
  then have "lh (LS_Params ! st) = -1"
    by (simp add: LS_UNKNOWN_def LS_Params_nth LSP_def)
  with assms show False by simp
qed

lemma ProcessStateChange_leave_sync_upd:
  assumes p: "ProcessStateChange_leave_sync ctx i d g = Some ctx1"
      and d: "get_d ctx i = Some d" and g: "disambiguator_data_g ctx = Some g"
  shows "\<exists>d1 l. ctx1 = upd ctx i d1 g (lightproc_log ctx @ l)
          \<and> (dinv n hz d \<longrightarrow> dinv n hz d1 \<and> list_all lp_ok l)"
proof (cases "last_sync_count d > 0")
  case False
  with p have "ctx1 = ctx" by (simp add: ProcessStateChange_leave_sync_def)
  then show ?thesis using upd_self [OF d g] by (intro exI [of _ d] exI [of _ "[]"]) simp
next
  case True
  let ?ls = "\<lparr>sensor_id = word_of_int (- last_sync_count d),
              length_le = ucast (longest_sync_length d),
              timestamp = first_sync_timestamp d\<rparr>"
  let ?d0 = "AddSyncHistory d ?ls"
  let ?lh = "lh (LS_Params ! state d)"
  from p True obtain new_offset old_offset where
    so: "SolveForMod_Offset (state d) ?ls = Some new_offset" and
    mo: "mod_offset_at ?d0 ?lh = Some old_offset"
    by (auto simp add: ProcessStateChange_leave_sync_def Let_def bind_eq_Some_conv)
  let ?d1 = "?d0\<lparr>mod_offset := (mod_offset ?d0)[nat ?lh := new_offset]\<rparr>"
  have locked: "state d \<noteq> LS_UNKNOWN"
    using mo by (intro lh_nonneg_locked) (simp add: mod_offset_at_def split: if_splits)
  have d1: "dinv n hz d \<longrightarrow> dinv n hz ?d1"
    using dinv_AddSyncHistory [of n hz d ?ls] by (auto simp add: dinv_def)
  have len: "dinv n hz d \<longrightarrow> 1500 \<le> uint (ucast (ucast (longest_sync_length d) :: u16) :: u32)
               \<and> uint (ucast (ucast (longest_sync_length d) :: u16) :: u32) \<le> 7500"
  proof
    assume "dinv n hz d"
    with True locked have r: "1500 \<le> uint (longest_sync_length d)" "uint (longest_sync_length d) \<le> 7500"
      by (simp_all add: dinv_def)
    have "uint (ucast (longest_sync_length d) :: u16) = uint (longest_sync_length d)"
      using r by (simp add: unsigned_ucast_eq take_bit_int_eq_self)
    then show "1500 \<le> uint (ucast (ucast (longest_sync_length d) :: u16) :: u32)
               \<and> uint (ucast (ucast (longest_sync_length d) :: u16) :: u32) \<le> 7500"
      using r by (simp add: ucast_len_uint)
  qed
  define c where "c =
    (let lengthData = ACODE_TIMING (LSParam_acode (state d) OR DATA_BIT);
         lengthNoData = ACODE_TIMING (LSParam_acode (state d));
         hasData = (\<bar>lengthData - uint (length_le ?ls)\<bar> < \<bar>lengthNoData - uint (length_le ?ls)\<bar>);
         ac = LSParam_acode (state d);
         ac = (if hasData then ac OR DATA_BIT else ac);
         next_state = state d + 1;
         next_state =
           (if next_state = LS_END \<or> (single_60hz_mode g \<and> next_state = LS_WaitLHB_ACode0)
            then 0 else next_state);
         index_code = (if is_sweep (LS_Params ! next_state) then -1 else -2)
     in \<lparr>lp_so = i, lp_sensor_id = index_code, lp_acode = ac,
         lp_timeinsweep = 0, lp_timecode = timestamp ?ls,
         lp_length = ucast (length_le ?ls), lp_lh = ?lh\<rparr>)"
  have c: "(lp_sensor_id c = -1 \<or> lp_sensor_id c = -2) \<and> lp_timeinsweep c = 0
            \<and> lp_length c = ucast (ucast (longest_sync_length d) :: u16)"
    by (simp add: c_def Let_def)
  from p True so mo have
    c1: "ctx1 = (if confidence d > 80 then lightproc (put_d ctx i ?d1) c else put_d ctx i ?d1)"
    by (auto simp add: ProcessStateChange_leave_sync_def c_def Let_def split: if_splits)
  have ok: "dinv n hz d \<longrightarrow> lp_ok c" using c len by (auto simp add: lp_ok_def)
  show ?thesis
  proof (cases "confidence d > 80")
    case True
    with c1 have "ctx1 = upd ctx i ?d1 g (lightproc_log ctx @ [c])"
      by (simp add: put_d_as_upd [OF g])
    then show ?thesis using d1 ok by (intro exI [of _ ?d1] exI [of _ "[c]"]) simp
  next
    case False
    with c1 have "ctx1 = upd ctx i ?d1 g (lightproc_log ctx @ [])"
      by (simp add: put_d_as_upd [OF g])
    then show ?thesis using d1 by (intro exI [of _ ?d1] exI [of _ "[]"]) simp
  qed
qed

lemma ProcessStateChange_leave_sweep_upd:
  assumes p: "ProcessStateChange_leave_sweep ctx i d e = Some ctx1"
      and d: "get_d ctx i = Some d" and g: "disambiguator_data_g ctx = Some g"
  shows "\<exists>l. ctx1 = upd ctx i d g (lightproc_log ctx @ l) \<and> list_all lp_ok l"
proof -
  from p have "ctx1 = ctx \<or> (\<exists>mn mx l xs. ProcessStateChange_sweeps ctx i d e mn mx l xs = Some ctx1)"
    by (auto simp add: ProcessStateChange_leave_sweep_def Let_def split: if_splits)
  then show ?thesis
  proof
    assume "ctx1 = ctx"
    then show ?thesis using upd_self [OF d g] by (intro exI [of _ "[]"]) simp
  next
    assume "\<exists>mn mx l xs. ProcessStateChange_sweeps ctx i d e mn mx l xs = Some ctx1"
    then obtain ls where "ctx1 = ctx\<lparr>lightproc_log := lightproc_log ctx @ ls\<rparr>" "list_all lp_ok ls"
      using ProcessStateChange_sweeps_log by blast
    then show ?thesis using upd_self_log [OF d g] by (intro exI [of _ ls]) simp
  qed
qed

lemma ProcessStateChange_upd:
  assumes p: "ProcessStateChange ctx i le s = Some ctx'"
      and d: "get_d ctx i = Some d" and g: "disambiguator_data_g ctx = Some g"
  shows "\<exists>d' g' l. ctx' = upd ctx i d' g' (lightproc_log ctx @ l)
          \<and> (dinv (sensor_ct (objs ctx ! i)) hz d \<longrightarrow>
               dinv (sensor_ct (objs ctx ! i)) hz d' \<and> list_all lp_ok l)
          \<and> state d' = (if s \<ge> LS_END then 1 else s)"
proof -
  let ?n = "sensor_ct (objs ctx ! i)"
  have i: "i < length (objs ctx)" using d by (rule get_d_Some_less)
  from p d g obtain ctx1 where
    m: "(if \<not> is_sweep (LS_Params ! state d) then ProcessStateChange_leave_sync ctx i d g
         else ProcessStateChange_leave_sweep ctx i d
                (if single_60hz_mode g then LS_WaitLHB_ACode0 else LS_END)) = Some ctx1"
    and ss: "SetState ctx1 i s = Some ctx'"
    by (auto simp add: ProcessStateChange_def Let_def bind_eq_Some_conv)
  have "\<exists>d1 l. ctx1 = upd ctx i d1 g (lightproc_log ctx @ l)
          \<and> (dinv ?n hz d \<longrightarrow> dinv ?n hz d1 \<and> list_all lp_ok l)"
  proof (cases "is_sweep (LS_Params ! state d)")
    case False
    with m have "ProcessStateChange_leave_sync ctx i d g = Some ctx1" by simp
    from ProcessStateChange_leave_sync_upd [OF this d g] show ?thesis .
  next
    case True
    with m obtain e where "ProcessStateChange_leave_sweep ctx i d e = Some ctx1" by simp
    from ProcessStateChange_leave_sweep_upd [OF this d g] show ?thesis by blast
  qed
  then obtain d1 l where c1: "ctx1 = upd ctx i d1 g (lightproc_log ctx @ l)"
    and p1: "dinv ?n hz d \<longrightarrow> dinv ?n hz d1 \<and> list_all lp_ok l" by blast
  have "get_d ctx1 i = Some d1" "disambiguator_data_g ctx1 = Some g"
    using c1 i by (simp_all add: get_d_upd_same)
  from SetState_upd [OF this, of s] ss c1 obtain g' where
    "ctx' = upd ctx i (SetState_d ?n s d1) g' (lightproc_log ctx @ l)" by auto
  then show ?thesis using p1 dinv_SetState_d [of ?n hz d1 s]
    by (intro exI [of _ "SetState_d ?n s d1"] exI [of _ g'] exI [of _ l]) simp
qed

subsection \<open>Propagating the state\<close>

lemma cinv_step:
  assumes "cinv ctx" and "get_d ctx i = Some d"
      and "ctx' = upd ctx i d' g' (lightproc_log ctx @ l)"
      and "dinv (sensor_ct (objs ctx ! i)) (timebase_hz (objs ctx ! i)) d \<longrightarrow>
           dinv (sensor_ct (objs ctx ! i)) (timebase_hz (objs ctx ! i)) d' \<and> list_all lp_ok l"
  shows "cinv ctx'"
  unfolding assms(3)
  using assms(1,4) cinv_get [OF assms(1,2)] cinv_log [OF assms(1)]
  by (intro cinv_upd) simp_all

lemma cinv_put_d:
  assumes "cinv ctx" and "get_d ctx i = Some d" and "disambiguator_data_g ctx = Some g"
      and "dinv (sensor_ct (objs ctx ! i)) (timebase_hz (objs ctx ! i)) d \<longrightarrow>
           dinv (sensor_ct (objs ctx ! i)) (timebase_hz (objs ctx ! i)) d'"
  shows "cinv (put_d ctx i d')"
  using assms(4) by (intro cinv_step [OF assms(1,2), of _ d' g "[]"]) (simp_all add: put_d_as_upd [OF assms(3)])

lemma SetState_cinv:
  assumes "SetState ctx i s = Some ctx'" and "cinv ctx"
  shows "cinv ctx'"
proof -
  from assms(1) obtain d g where d: "get_d ctx i = Some d" and g: "disambiguator_data_g ctx = Some g"
    by (auto simp add: SetState_def bind_eq_Some_conv)
  from SetState_upd [OF d g, of s] assms(1) obtain g' where
    "ctx' = upd ctx i (SetState_d (sensor_ct (objs ctx ! i)) s d) g' (lightproc_log ctx @ [])" by auto
  then show ?thesis using dinv_SetState_d
    by (intro cinv_step [OF assms(2) d, where l = "[]" and g' = g'
          and d' = "SetState_d (sensor_ct (objs ctx ! i)) s d"]) simp_all
qed

lemma set_last_timestamp_cinv:
  assumes "set_last_timestamp ctx i le = Some ctx'" and "cinv ctx"
      and g: "disambiguator_data_g ctx = Some g"
  shows "cinv ctx'"
proof -
  from assms(1) obtain d where d: "get_d ctx i = Some d"
    and e: "ctx' = put_d ctx i (d\<lparr>last_timestamp := timestamp le\<rparr>)"
    by (auto simp add: set_last_timestamp_def bind_eq_Some_conv)
  show ?thesis unfolding e by (rule cinv_put_d [OF assms(2) d g]) (simp add: dinv_simple_updates)
qed

lemma set_last_timestamp_g:
  "set_last_timestamp ctx i le = Some ctx' \<Longrightarrow> disambiguator_data_g ctx' = disambiguator_data_g ctx"
  by (auto simp add: set_last_timestamp_def bind_eq_Some_conv)

lemma PropagateState_capture_upd:
  assumes p: "PropagateState_capture ctx i le = Some ctx'"
      and d: "get_d ctx i = Some d" and g: "disambiguator_data_g ctx = Some g"
  shows "\<exists>d' g'. ctx' = upd ctx i d' g' (lightproc_log ctx)
          \<and> (dinv (sensor_ct (objs ctx ! i)) hz d \<longrightarrow> dinv (sensor_ct (objs ctx ! i)) hz d')"
proof (cases "is_sweep (LS_Params ! state d)")
  case False
  with p d have "RunACodeCapture ctx i (LSParam_acode (state d)) le = Some ctx'"
    by (simp add: PropagateState_capture_def)
  with RunACodeCapture_upd [OF d g, of "LSParam_acode (state d)" le hz] show ?thesis by auto
next
  case True
  let ?rep = "length_le le > length_le (sweep_data d ! unat (sensor_id le)) \<and> uint (length_le le) < 7000"
  show ?thesis
  proof (cases ?rep)
    case False
    with p d True have "ctx' = ctx"
      by (auto simp add: PropagateState_capture_def split: if_splits)
    then show ?thesis using upd_self [OF d g] by (intro exI [of _ d] exI [of _ g]) simp
  next
    case rep: True
    let ?d0 = "if uint (length_le le) > 3000 then d\<lparr>confidence := confidence d - 1\<rparr> else d"
    let ?d' = "?d0\<lparr>sweep_data := (sweep_data ?d0)[unat (sensor_id le) := le]\<rparr>"
    from p d True rep have "ctx' = put_d ctx i ?d'"
      by (auto simp add: PropagateState_capture_def Let_def split: if_splits)
    then have "ctx' = upd ctx i ?d' g (lightproc_log ctx)" by (simp add: put_d_as_upd [OF g])
    moreover have "dinv n hz d \<longrightarrow> dinv n hz ?d'" for n by (auto simp add: dinv_def)
    ultimately show ?thesis by (intro exI [of _ ?d'] exI [of _ g]) simp
  qed
qed

lemma PropagateState_cinv:
  assumes p: "PropagateState ctx i le = Some ctx'" and c: "cinv ctx"
      and g: "disambiguator_data_g ctx = Some g"
  shows "cinv ctx' \<and> disambiguator_data_g ctx' \<noteq> None"
proof -
  let ?n = "sensor_ct (objs ctx ! i)" and ?hz = "timebase_hz (objs ctx ! i)"
  from p obtain d where d: "get_d ctx i = Some d"
    by (auto simp add: PropagateState_def bind_eq_Some_conv)
  have i: "i < length (objs ctx)" using d by (rule get_d_Some_less)
  show ?thesis
  proof (cases "unat (sensor_id le) \<ge> ?n")
    case True
    with p d have "ctx' = ctx" by (simp add: PropagateState_def)
    with c g show ?thesis by simp
  next
    case False
    with p d g obtain ns ctx1 where
      m: "(if state d \<noteq> ns then ProcessStateChange ctx i le ns else Some ctx) = Some ctx1" and
      cap: "PropagateState_capture ctx1 i le = Some ctx'"
      by (auto simp add: PropagateState_def Let_def bind_eq_Some_conv)
    have "\<exists>d1 g1 l. ctx1 = upd ctx i d1 g1 (lightproc_log ctx @ l)
          \<and> (dinv ?n ?hz d \<longrightarrow> dinv ?n ?hz d1 \<and> list_all lp_ok l)"
    proof (cases "state d \<noteq> ns")
      case True
      with m have "ProcessStateChange ctx i le ns = Some ctx1" by simp
      from ProcessStateChange_upd [OF this d g, of ?hz] show ?thesis by blast
    next
      case False
      with m have "ctx1 = ctx" by simp
      then show ?thesis using upd_self [OF d g]
        by (intro exI [of _ d] exI [of _ g] exI [of _ "[]"]) simp
    qed
    then obtain d1 g1 l where c1: "ctx1 = upd ctx i d1 g1 (lightproc_log ctx @ l)"
      and p1: "dinv ?n ?hz d \<longrightarrow> dinv ?n ?hz d1 \<and> list_all lp_ok l" by blast
    have d1: "get_d ctx1 i = Some d1" and g1: "disambiguator_data_g ctx1 = Some g1"
      using c1 i by (simp_all add: get_d_upd_same)
    from PropagateState_capture_upd [OF cap d1 g1, of ?hz] obtain d' g' where
      e: "ctx' = upd ctx1 i d' g' (lightproc_log ctx1)" and
      p2: "dinv (sensor_ct (objs ctx1 ! i)) ?hz d1 \<longrightarrow> dinv (sensor_ct (objs ctx1 ! i)) ?hz d'"
      by blast
    have e': "ctx' = upd ctx i d' g' (lightproc_log ctx @ l)" using e c1 by simp
    have "dinv ?n ?hz d \<longrightarrow> dinv ?n ?hz d' \<and> list_all lp_ok l"
      using p1 p2 c1 by simp
    with e' show ?thesis using cinv_step [OF c d e'] by simp
  qed
qed

subsection \<open>The dispatcher and event streams\<close>

lemma sint_below_2p31:
  fixes x :: u32
  assumes "uint x < 2 ^ 31"
  shows "sint x = uint x"
proof -
  have "(- (2 ^ 31) :: int) \<le> 0" by simp
  then have lo: "- (2 ^ 31) \<le> uint x" using uint_ge_0 [of x] by (rule order_trans)
  have "signed_take_bit 31 (uint x) = uint x"
    using lo assms by (rule signed_take_bit_int_eq_self)
  then show ?thesis by (simp add: sint_uint)
qed

lemma penalty_eq:
  fixes t :: u32
  assumes "20 \<le> hz" and "hz < 2 ^ 32"
  shows "sint (t div word_of_int hz * 10) = 10 * (uint t div hz)"
proof -
  have w: "uint (word_of_int hz :: u32) = hz"
    using assms by (simp add: uint_word_of_int take_bit_int_eq_self)
  have q: "uint (t div word_of_int hz) = uint t div hz" by (simp add: uint_div w)
  have "uint t < 4294967296" using uint_lt2p [of t] by simp
  then have "uint t div hz \<le> 4294967295 div 20"
    using assms(1) by (intro order_trans [OF zdiv_mono2 zdiv_mono1]) simp_all
  then have b: "uint t div hz * 10 < 2147483648" by simp
  have nn: "0 \<le> uint t div hz" using assms(1) by (simp add: pos_imp_zdiv_nonneg_iff)
  have "uint (t div word_of_int hz * 10) = (uint t div hz * 10) mod 2 ^ 32"
    by (simp add: uint_word_ariths q)
  also have "\<dots> = uint t div hz * 10" using b nn by simp
  finally have u: "uint (t div word_of_int hz * 10) = uint t div hz * 10" .
  then have "sint (t div word_of_int hz * 10) = uint t div hz * 10"
    using b by (intro trans [OF sint_below_2p31]) simp_all
  then show ?thesis by simp
qed

lemma calloc_dinv: "dinv n hz (calloc_d n)"
  by (simp add: dinv_def calloc_d_def LS_UNKNOWN_def LS_END_def SYNC_HISTORY_LEN_def NUM_LIGHTHOUSES_def)

lemma cinv_g_update: "cinv (ctx\<lparr>disambiguator_data_g := x\<rparr>) = cinv ctx"
  by (simp add: cinv_def)

lemma cinv_put_d_fresh:
  assumes "cinv ctx" and "dinv (sensor_ct (objs ctx ! i)) (timebase_hz (objs ctx ! i)) d"
  shows "cinv (put_d ctx i d)"
  unfolding cinv_def
proof (intro conjI allI impI)
  fix j d' assume g: "get_d (put_d ctx i d) j = Some d'"
  show "dinv (sensor_ct (objs (put_d ctx i d) ! j)) (timebase_hz (objs (put_d ctx i d) ! j)) d'"
  proof (cases "j = i")
    case True
    with g have "i < length (objs ctx)" by (auto dest: get_d_Some_less)
    with g True assms(2) show ?thesis by (simp add: get_d_put_d_same)
  next
    case False
    with g assms(1) show ?thesis by (simp add: get_d_put_d_other cinv_def)
  qed
next
  show "list_all lp_ok (lightproc_log (put_d ctx i d))" using assms(1) by (simp add: cinv_def)
qed

lemma alloc_props:
  assumes i: "i < length (objs ctx)" and c: "cinv ctx"
  shows "cinv (DisambiguatorStateBased_alloc ctx i)
    \<and> (\<exists>g. disambiguator_data_g (DisambiguatorStateBased_alloc ctx i) = Some g)
    \<and> (\<exists>d. get_d (DisambiguatorStateBased_alloc ctx i) i = Some d)"
proof -
  define c0 where "c0 = (if disambiguator_data_g ctx = None
                then ctx\<lparr>disambiguator_data_g := Some \<lparr>single_60hz_mode = False\<rparr>\<rparr>
                else ctx)"
  have c0: "cinv c0" "\<exists>g. disambiguator_data_g c0 = Some g" "i < length (objs c0)"
    using i c by (auto simp add: c0_def cinv_g_update)
  have e: "DisambiguatorStateBased_alloc ctx i =
      (if disambiguator_data (objs c0 ! i) = None
       then put_d c0 i (calloc_d (sensor_ct (objs c0 ! i))) else c0)"
    by (simp add: DisambiguatorStateBased_alloc_def c0_def Let_def)
  show ?thesis
  proof (cases "disambiguator_data (objs c0 ! i) = None")
    case True
    then show ?thesis unfolding e using c0
      by (simp add: get_d_put_d_same cinv_put_d_fresh calloc_dinv)
  next
    case False
    then show ?thesis unfolding e using c0 by (auto simp add: get_d_def)
  qed
qed

lemma DisambiguatorStateBased_unknown_cinv:
  assumes u: "DisambiguatorStateBased_unknown ctx i le = Some ctx'" and c: "cinv ctx"
      and d: "get_d ctx i = Some d" and g: "disambiguator_data_g ctx = Some g"
      and st: "state d = LS_UNKNOWN"
  shows "cinv ctx'"
proof -
  let ?n = "sensor_ct (objs ctx ! i)" and ?hz = "timebase_hz (objs ctx ! i)"
  have i: "i < length (objs ctx)" using d by (rule get_d_Some_less)
  from u obtain c1 s where a: "AttemptFindState ctx i le = Some (c1, s)"
    by (cases "AttemptFindState ctx i le") (auto simp add: DisambiguatorStateBased_unknown_def)
  from AttemptFindState_upd [OF a d g st, of ?n ?hz] obtain d1 g1 where
    c1: "c1 = upd ctx i d1 g1 (lightproc_log ctx @ [])" and
    p1: "dinv ?n ?hz d \<longrightarrow> dinv ?n ?hz d1" by auto
  have cc1: "cinv c1" using p1 by (intro cinv_step [OF c d c1]) simp
  have d1: "get_d c1 i = Some d1" and g1: "disambiguator_data_g c1 = Some g1"
    using c1 i by (simp_all add: get_d_upd_same)
  have u1: "DisambiguatorStateBased_unknown ctx i le =
     (if s \<noteq> LS_UNKNOWN then do {
          let d = d1\<lparr>confidence := 0, failures := 0\<rparr>;
          mo \<leftarrow> mod_offset_at d 0;
          let le_offset =
                sint ((timestamp le - mo) mod word_of_int (LSParam_offset_for_state LS_END));
          new_state1 \<leftarrow> LighthouseState_findByOffset le_offset;
          SetState (put_d c1 i d) i s
        } else
          let d = d1\<lparr>failures := failures d1 + 1\<rparr>;
              d = (if failures d > 1000 then d\<lparr>failures := 0\<rparr> else d)
          in Some (put_d c1 i d)) \<bind> (\<lambda>c. set_last_timestamp c i le)"
    by (simp add: DisambiguatorStateBased_unknown_def a d1)
  show ?thesis
  proof (cases "s \<noteq> LS_UNKNOWN")
    case True
    let ?d2 = "d1\<lparr>confidence := 0, failures := 0\<rparr>"
    from u True obtain c2 where ss: "SetState (put_d c1 i ?d2) i s = Some c2"
      and l: "set_last_timestamp c2 i le = Some ctx'"
      unfolding u1 by (auto simp add: Let_def bind_eq_Some_conv)
    have "cinv (put_d c1 i ?d2)"
      by (rule cinv_put_d [OF cc1 d1 g1]) (auto simp add: dinv_def)
    from SetState_cinv [OF ss this] have c2: "cinv c2" .
    from ss obtain g2 where "disambiguator_data_g c2 = Some g2"
      by (auto simp add: SetState_def Let_def bind_eq_Some_conv)
    from set_last_timestamp_cinv [OF l c2 this] show ?thesis .
  next
    case False
    let ?d2 = "d1\<lparr>failures := failures d1 + 1\<rparr>"
    let ?d3 = "if failures ?d2 > 1000 then ?d2\<lparr>failures := 0\<rparr> else ?d2"
    from u False have l: "set_last_timestamp (put_d c1 i ?d3) i le = Some ctx'"
      unfolding u1 by (simp add: Let_def)
    have c3: "cinv (put_d c1 i ?d3)"
      by (rule cinv_put_d [OF cc1 d1 g1]) (simp add: dinv_simple_updates)
    have "disambiguator_data_g (put_d c1 i ?d3) = Some g1" using g1 by simp
    from set_last_timestamp_cinv [OF l c3 this] show ?thesis .
  qed
qed

lemma DisambiguatorStateBased_locked_cinv:
  assumes u: "DisambiguatorStateBased_locked tcd ctx i d le = Some ctx'" and c: "cinv ctx"
      and d: "get_d ctx i = Some d" and g: "disambiguator_data_g ctx = Some g"
  shows "cinv ctx'"
proof -
  let ?n = "sensor_ct (objs ctx ! i)" and ?hz = "timebase_hz (objs ctx ! i)"
  let ?t = "tcd (timestamp le) (last_timestamp d)"
  let ?w = "word_of_int ?hz :: u32"
  let ?p = "sint (?t div ?w * 10)"
  have after: "cinv ctx'" if "PropagateState c0 i le = Some c1" "set_last_timestamp c1 i le = Some ctx'"
    "cinv c0" "disambiguator_data_g c0 = Some g" for c0 c1
  proof -
    from PropagateState_cinv [OF that(1,3,4)] obtain g1 where
      c1: "cinv c1" and g1: "disambiguator_data_g c1 = Some g1" by auto
    from set_last_timestamp_cinv [OF that(2) c1 g1] show ?thesis .
  qed
  show ?thesis
  proof (cases "?t > ?w")
    case False
    with u obtain c1 where "PropagateState ctx i le = Some c1" "set_last_timestamp c1 i le = Some ctx'"
      by (auto simp add: DisambiguatorStateBased_locked_def Let_def bind_eq_Some_conv)
    then show ?thesis using c g by (rule after)
  next
    case True
    show ?thesis
    proof (cases "confidence d < ?p")
      case lost: True
      with u True have "SetState ctx i LS_UNKNOWN = Some ctx'"
        by (auto simp add: DisambiguatorStateBased_locked_def Let_def split: if_splits)
      then show ?thesis using c by (rule SetState_cinv)
    next
      case False
      let ?d1 = "d\<lparr>confidence := confidence d - ?p\<rparr>"
      from u True False obtain c1 where
        "PropagateState (put_d ctx i ?d1) i le = Some c1" "set_last_timestamp c1 i le = Some ctx'"
        by (auto simp add: DisambiguatorStateBased_locked_def Let_def bind_eq_Some_conv split: if_splits)
      moreover have "cinv (put_d ctx i ?d1)"
      proof (rule cinv_put_d [OF c d g], rule impI)
        assume dv: "dinv ?n ?hz d"
        have "20 \<le> ?hz \<and> ?hz < 2 ^ 31 \<longrightarrow> 0 \<le> ?p"
        proof
          assume h: "20 \<le> ?hz \<and> ?hz < 2 ^ 31"
          then have "?hz < 2 ^ 32" by simp
          with h have "?p = 10 * (uint ?t div ?hz)" by (intro penalty_eq) simp_all
          moreover have "0 \<le> uint ?t div ?hz" using h by (simp add: pos_imp_zdiv_nonneg_iff)
          ultimately show "0 \<le> ?p" by simp
        qed
        with dv show "dinv ?n ?hz ?d1" by (auto simp add: dinv_def)
      qed
      moreover have "disambiguator_data_g (put_d ctx i ?d1) = Some g" using g by simp
      ultimately show ?thesis by (rule after)
    qed
  qed
qed

lemma DisambiguatorStateBased_cinv:
  assumes s: "DisambiguatorStateBased tcd ctx i le = Some ctx'" and c: "cinv ctx"
  shows "cinv ctx'"
proof -
  from s have i: "i < length (objs ctx)"
    by (auto simp add: DisambiguatorStateBased_def split: if_splits)
  show ?thesis
  proof (cases "sensor_ct (objs ctx ! i) = 0")
    case True
    with s i c show ?thesis by (simp add: DisambiguatorStateBased_def)
  next
    case False
    let ?c0 = "DisambiguatorStateBased_alloc ctx i"
    from alloc_props [OF i c] obtain g0 d0 where
      c0: "cinv ?c0" and g0: "disambiguator_data_g ?c0 = Some g0" and d0: "get_d ?c0 i = Some d0"
      by blast
    show ?thesis
    proof (cases "stabalize d0 < 200")
      case True
      with s i False d0 have "ctx' = put_d ?c0 i (d0\<lparr>stabalize := stabalize d0 + 1\<rparr>)"
        by (simp add: DisambiguatorStateBased_def Let_def)
      moreover have "cinv (put_d ?c0 i (d0\<lparr>stabalize := stabalize d0 + 1\<rparr>))"
        by (rule cinv_put_d [OF c0 d0 g0]) (simp add: dinv_simple_updates)
      ultimately show ?thesis by simp
    next
      case warm: False
      show ?thesis
      proof (cases "state d0 = LS_UNKNOWN")
        case True
        with s i False d0 warm have "DisambiguatorStateBased_unknown ?c0 i le = Some ctx'"
          by (simp add: DisambiguatorStateBased_def Let_def)
        from DisambiguatorStateBased_unknown_cinv [OF this c0 d0 g0 True] show ?thesis .
      next
        case locked: False
        with s i False d0 warm have "DisambiguatorStateBased_locked tcd ?c0 i d0 le = Some ctx'"
          by (simp add: DisambiguatorStateBased_def Let_def)
        from DisambiguatorStateBased_locked_cinv [OF this c0 d0 g0] show ?thesis .
      qed
    qed
  qed
qed

lemma run_cinv: "run tcd ctx evs = Some ctx' \<Longrightarrow> cinv ctx \<Longrightarrow> cinv ctx'"
proof (induction evs arbitrary: ctx)
  case Nil
  then show ?case by simp
next
  case (Cons ev evs)
  obtain i le where ev: "ev = (i, le)" by (cases ev)
  with Cons.prems(1) obtain c1 where
    s: "DisambiguatorStateBased tcd ctx i le = Some c1" and r: "run tcd c1 evs = Some ctx'"
    by (auto split: option.splits)
  from DisambiguatorStateBased_cinv [OF s Cons.prems(2)] have "cinv c1" .
  from Cons.IH [OF r this] show ?case .
qed

lemma new_context_cinv: "cinv (new_context sos)"
  by (simp add: cinv_def new_context_def get_d_def)

subsection \<open>The claims on the tracker\<close>

lemma findByOffset_cycle_end:
  assumes "1599000 \<le> off" and "off < 1600000"
  shows "LighthouseState_findByOffset off = Some (LS_END, 1600000 - off)"
  using assms unfolding LighthouseState_findByOffset_def upt_2_14
  by (simp add: LSParam_offset_for_state_nth LS_Params_nth LSP_def LS_END_def Let_def)

text \<open>
  C10. After any stream of events processed from a new context, that is after every call of
  the entry point, the state stored for an object is \<open>LS_UNKNOWN\<close> or a phase index strictly
  below \<open>LS_END\<close>. \<^verbatim>\<open>SetState\<close> stores phase 1 for a proposed state from \<open>LS_END\<close> on and
  the proposed state otherwise; and \<^verbatim>\<open>LighthouseState_findByOffset\<close> does propose
  \<open>LS_END\<close>, for the offsets of the last 1000 ticks of the cycle.
\<close>

theorem state_below_LS_END:
  "(run tcd (new_context sos) evs = Some ctx \<and> get_d ctx i = Some d \<longrightarrow>
      state d = LS_UNKNOWN \<or> (LS_UNKNOWN < state d \<and> state d < LS_END))
   \<and> (get_d c j = Some e \<and> disambiguator_data_g c = Some g \<longrightarrow>
        (\<exists>c' e'. SetState c j s = Some c' \<and> get_d c' j = Some e'
           \<and> state e' = (if LS_END \<le> s then 1 else s)))
   \<and> (1599000 \<le> off \<and> off < 1600000 \<longrightarrow>
        LighthouseState_findByOffset off = Some (LS_END, 1600000 - off))"
proof (intro conjI impI)
  assume a: "run tcd (new_context sos) evs = Some ctx \<and> get_d ctx i = Some d"
  then have "cinv ctx" using run_cinv [OF _ new_context_cinv] by blast
  from cinv_get [OF this] a show "state d = LS_UNKNOWN \<or> (LS_UNKNOWN < state d \<and> state d < LS_END)"
    by (auto simp add: dinv_def LS_UNKNOWN_def)
next
  assume a: "get_d c j = Some e \<and> disambiguator_data_g c = Some g"
  then have e: "get_d c j = Some e" and g: "disambiguator_data_g c = Some g" by simp_all
  have j: "j < length (objs c)" using e by (rule get_d_Some_less)
  from SetState_upd [OF e g, of s] obtain g' where
    "SetState c j s = Some (upd c j (SetState_d (sensor_ct (objs c ! j)) s e) g' (lightproc_log c))"
    by blast
  then show "\<exists>c' e'. SetState c j s = Some c' \<and> get_d c' j = Some e'
           \<and> state e' = (if LS_END \<le> s then 1 else s)"
    using j by (simp add: get_d_upd_same)
next
  assume "1599000 \<le> off \<and> off < 1600000"
  then show "LighthouseState_findByOffset off = Some (LS_END, 1600000 - off)"
    by (simp add: findByOffset_cycle_end)
qed

text \<open>
  C6, as amended. For an event processed while the tracker is in a sweep phase, the slot of
  the event's sensor is replaced exactly when the length is larger than the length stored in
  the slot and below 7000 (there is no lower bound of 400), and the confidence is decremented
  by 1 exactly when the slot is replaced and the length is greater than 3000.
\<close>

theorem PropagateState_capture_sweep:
  assumes "get_d ctx i = Some d" and "is_sweep (LS_Params ! state d)"
      and "unat (sensor_id le) < length (sweep_data d)"
  shows "\<exists>ctx' d'. PropagateState_capture ctx i le = Some ctx' \<and> get_d ctx' i = Some d'
     \<and> sweep_data d' =
          (if length_le le > length_le (sweep_data d ! unat (sensor_id le)) \<and> uint (length_le le) < 7000
           then (sweep_data d)[unat (sensor_id le) := le] else sweep_data d)
     \<and> confidence d' =
          (if length_le le > length_le (sweep_data d ! unat (sensor_id le)) \<and> uint (length_le le) < 7000
              \<and> uint (length_le le) > 3000
           then confidence d - 1 else confidence d)"
  using assms get_d_Some_less [OF assms(1)]
  by (auto simp add: PropagateState_capture_def Let_def get_d_put_d_same)

lemma unlocked_step_keeps_mode:
  assumes g: "disambiguator_data_g ctx = Some g" and d: "get_d ctx i = Some d"
      and st: "state d = LS_UNKNOWN" and b: "get_best_latest_state ctx \<noteq> None"
      and s: "DisambiguatorStateBased tcd ctx i le = Some ctx'"
  shows "disambiguator_data_g ctx' = Some g"
proof -
  have i: "i < length (objs ctx)" using d by (rule get_d_Some_less)
  have al: "DisambiguatorStateBased_alloc ctx i = ctx"
    using g d i by (simp add: DisambiguatorStateBased_alloc_def get_d_def)
  show ?thesis
  proof (cases "sensor_ct (objs ctx ! i) = 0 \<or> stabalize d < 200")
    case True
    with s i d g al show ?thesis
      by (auto simp add: DisambiguatorStateBased_def split: if_splits)
  next
    case False
    with s i d st al have u: "DisambiguatorStateBased_unknown ctx i le = Some ctx'"
      by (simp add: DisambiguatorStateBased_def)
    then obtain c1 ns where a: "AttemptFindState ctx i le = Some (c1, ns)"
      by (cases "AttemptFindState ctx i le") (auto simp add: DisambiguatorStateBased_unknown_def)
    from AttemptFindState_upd [OF a d g st, of 0 0] b obtain d1 where
      c1: "c1 = upd ctx i d1 g (lightproc_log ctx)" by auto
    have d1: "get_d c1 i = Some d1" and g1: "disambiguator_data_g c1 = Some g"
      using c1 i by (simp_all add: get_d_upd_same)
    show ?thesis
    proof (cases "ns \<noteq> LS_UNKNOWN")
      case True
      let ?d2 = "d1\<lparr>confidence := 0, failures := 0\<rparr>"
      from u True a d1 obtain c2 where ss: "SetState (put_d c1 i ?d2) i ns = Some c2"
        and l: "set_last_timestamp c2 i le = Some ctx'"
        by (auto simp add: DisambiguatorStateBased_unknown_def Let_def bind_eq_Some_conv)
      have "get_d (put_d c1 i ?d2) i = Some ?d2" using c1 i by (simp add: get_d_upd_same)
      moreover have "disambiguator_data_g (put_d c1 i ?d2) = Some g" using g1 by simp
      ultimately obtain g' where
        "c2 = upd (put_d c1 i ?d2) i (SetState_d (sensor_ct (objs (put_d c1 i ?d2) ! i)) ns ?d2) g'
               (lightproc_log (put_d c1 i ?d2))"
        and "g' = g \<or> (if ns \<ge> LS_END then 1 else ns) = LS_UNKNOWN \<and> g' = g\<lparr>single_60hz_mode := False\<rparr>"
        using SetState_upd [of "put_d c1 i ?d2" i ?d2 g ns] ss by auto
      with True have "disambiguator_data_g c2 = Some g"
        by (auto simp add: LS_UNKNOWN_def split: if_splits)
      with set_last_timestamp_g [OF l] show ?thesis by simp
    next
      case False
      with u a d1 have "\<exists>d3. set_last_timestamp (put_d c1 i d3) i le = Some ctx'"
        by (auto simp add: DisambiguatorStateBased_unknown_def Let_def)
      then obtain d3 where l: "set_last_timestamp (put_d c1 i d3) i le = Some ctx'" by blast
      with set_last_timestamp_g [OF l] g1 show ?thesis by simp
    qed
  qed
qed

lemma SetState_lost_mode:
  assumes g: "disambiguator_data_g c = Some g" and e: "get_d c j = Some e"
  shows "\<exists>c'. SetState c j LS_UNKNOWN = Some c'
     \<and> disambiguator_data_g c' =
          Some (if get_best_latest_state (put_d c j (e\<lparr>state := LS_UNKNOWN\<rparr>)) = None
                then g\<lparr>single_60hz_mode := False\<rparr> else g)"
proof -
  have j: "j < length (objs c)" using e by (rule get_d_Some_less)
  let ?e0 = "e\<lparr>state := LS_UNKNOWN\<rparr>"
  let ?e1 = "?e0\<lparr>sync_history := replicate SYNC_HISTORY_LEN zero_le, sync_offset := 0\<rparr>"
  have "get_d (put_d c j ?e0) j = Some ?e0" using j by (simp add: get_d_put_d_same)
  from get_best_latest_state_put_d [OF this, of ?e1]
  have b: "get_best_latest_state (put_d c j ?e1) = get_best_latest_state (put_d c j ?e0)" by simp
  have u: "\<not> LS_END \<le> LS_UNKNOWN" by (simp add: LS_UNKNOWN_def LS_END_def)
  show ?thesis
    using g e j u by (simp add: SetState_def Let_def b)
qed

lemma get_best_latest_state_loop_kept:
  "b \<noteq> None \<Longrightarrow> get_best_latest_state_loop sos k m b \<noteq> None"
  by (induction sos arbitrary: k m b) (auto split: option.splits)

lemma get_best_latest_state_loop_None_iff:
  "get_best_latest_state_loop sos k 0 None = None \<longleftrightarrow>
   list_all (\<lambda>so. case disambiguator_data so of None \<Rightarrow> True
                     | Some d \<Rightarrow> state d = LS_UNKNOWN \<or> confidence d \<le> 0) sos"
proof (induction sos arbitrary: k)
  case Nil
  then show ?case by simp
next
  case (Cons so sos)
  show ?case
  proof (cases "disambiguator_data so")
    case None
    then show ?thesis using Cons.IH by simp
  next
    case (Some d)
    show ?thesis
    proof (cases "state d \<noteq> LS_UNKNOWN \<and> 0 < confidence d")
      case True
      have "get_best_latest_state_loop sos (Suc k) (confidence d) (Some k) \<noteq> None"
        by (rule get_best_latest_state_loop_kept) simp
      with True Some show ?thesis by auto
    next
      case False
      with Some show ?thesis using Cons.IH by auto
    qed
  qed
qed

lemma get_best_latest_state_trusted:
  "get_best_latest_state ctx \<noteq> None \<longleftrightarrow>
   (\<exists>k d. get_d ctx k = Some d \<and> state d \<noteq> LS_UNKNOWN \<and> 0 < confidence d)"
proof -
  have "get_best_latest_state ctx \<noteq> None \<longleftrightarrow>
      (\<exists>so \<in> set (objs ctx). \<exists>d. disambiguator_data so = Some d \<and> state d \<noteq> LS_UNKNOWN \<and> 0 < confidence d)"
    unfolding get_best_latest_state_def get_best_latest_state_loop_None_iff list_all_iff
    by (auto split: option.splits simp add: not_le)
  also have "\<dots> \<longleftrightarrow> (\<exists>k d. get_d ctx k = Some d \<and> state d \<noteq> LS_UNKNOWN \<and> 0 < confidence d)"
  proof
    assume "\<exists>so \<in> set (objs ctx). \<exists>d. disambiguator_data so = Some d \<and> state d \<noteq> LS_UNKNOWN \<and> 0 < confidence d"
    then obtain so d where so: "so \<in> set (objs ctx)" and d: "disambiguator_data so = Some d"
      "state d \<noteq> LS_UNKNOWN" "0 < confidence d" by blast
    from so obtain k where "k < length (objs ctx)" "objs ctx ! k = so" by (auto simp add: in_set_conv_nth)
    with d have "get_d ctx k = Some d" by (simp add: get_d_def)
    with d show "\<exists>k d. get_d ctx k = Some d \<and> state d \<noteq> LS_UNKNOWN \<and> 0 < confidence d" by blast
  next
    assume "\<exists>k d. get_d ctx k = Some d \<and> state d \<noteq> LS_UNKNOWN \<and> 0 < confidence d"
    then obtain k d where g: "get_d ctx k = Some d" and d: "state d \<noteq> LS_UNKNOWN" "0 < confidence d" by blast
    from g have k: "k < length (objs ctx)" by (rule get_d_Some_less)
    with g have "disambiguator_data (objs ctx ! k) = Some d" by (simp add: get_d_def)
    moreover from k have "objs ctx ! k \<in> set (objs ctx)" by simp
    ultimately show "\<exists>so \<in> set (objs ctx). \<exists>d. disambiguator_data so = Some d \<and> state d \<noteq> LS_UNKNOWN \<and> 0 < confidence d"
      using d by blast
  qed
  finally show ?thesis .
qed

text \<open>
  C4, as amended. While some object is locked with a positive confidence (the object that
  \<^verbatim>\<open>get_best_latest_state\<close> returns), an event dispatched to an object without lock, and so
  every lock decision, leaves the global data and its flag \<open>single_60hz_mode\<close> unchanged.
  And when \<^verbatim>\<open>SetState\<close> takes the lock of an object, the flag is cleared exactly when no
  object is locked with a positive confidence then. \<^verbatim>\<open>get_best_latest_state\<close> returns an
  object exactly when some object is locked with a positive confidence.
\<close>

theorem lock_decision_keeps_mode:
  "(disambiguator_data_g ctx = Some g \<and> get_d ctx i = Some d \<and> state d = LS_UNKNOWN
      \<and> get_best_latest_state ctx \<noteq> None \<and> DisambiguatorStateBased tcd ctx i le = Some ctx'
      \<longrightarrow> disambiguator_data_g ctx' = Some g)
   \<and> (disambiguator_data_g c = Some g0 \<and> get_d c j = Some e \<longrightarrow>
        (\<exists>c'. SetState c j LS_UNKNOWN = Some c'
           \<and> disambiguator_data_g c' =
                Some (if get_best_latest_state (put_d c j (e\<lparr>state := LS_UNKNOWN\<rparr>)) = None
                      then g0\<lparr>single_60hz_mode := False\<rparr> else g0)))
   \<and> ((get_best_latest_state c0 \<noteq> None)
        = (\<exists>k dk. get_d c0 k = Some dk \<and> state dk \<noteq> LS_UNKNOWN \<and> 0 < confidence dk))"
proof (intro conjI impI)
  assume "disambiguator_data_g ctx = Some g \<and> get_d ctx i = Some d \<and> state d = LS_UNKNOWN
      \<and> get_best_latest_state ctx \<noteq> None \<and> DisambiguatorStateBased tcd ctx i le = Some ctx'"
  then show "disambiguator_data_g ctx' = Some g"
    using unlocked_step_keeps_mode [of ctx g i d tcd le ctx'] by blast
next
  assume "disambiguator_data_g c = Some g0 \<and> get_d c j = Some e"
  then show "\<exists>c'. SetState c j LS_UNKNOWN = Some c'
           \<and> disambiguator_data_g c' =
                Some (if get_best_latest_state (put_d c j (e\<lparr>state := LS_UNKNOWN\<rparr>)) = None
                      then g0\<lparr>single_60hz_mode := False\<rparr> else g0)"
    using SetState_lost_mode [of c g0 j e] by blast
next
  show "(get_best_latest_state c0 \<noteq> None)
        = (\<exists>k dk. get_d c0 k = Some dk \<and> state dk \<noteq> LS_UNKNOWN \<and> 0 < confidence dk)"
    by (rule get_best_latest_state_trusted)
qed


text \<open>
  C9, as amended. For an event arriving while the tracker is locked and past its warm-up,
  whose timecode difference from the previous event exceeds \<open>timebase_hz\<close>, a tick rate of
  at least 20: the penalty is \<open>10 * (timediff div timebase_hz)\<close>, at least 10. If the
  confidence is below the penalty, the state stored is \<open>LS_UNKNOWN\<close>, the confidence and the
  last timestamp are as before (the tracker state is that of \<^verbatim>\<open>SetState\<close>), and nothing is
  emitted. Otherwise the confidence stored is reduced by the penalty and the event is
  propagated from there.
\<close>

theorem silence_penalty:
  assumes i: "i < length (objs ctx)" and n: "sensor_ct (objs ctx ! i) \<noteq> 0"
      and d: "get_d ctx i = Some d" and g: "disambiguator_data_g ctx = Some g"
      and w: "200 \<le> stabalize d" and st: "state d \<noteq> LS_UNKNOWN"
      and hz: "20 \<le> timebase_hz (objs ctx ! i)" "timebase_hz (objs ctx ! i) < 2 ^ 31"
      and t: "timebase_hz (objs ctx ! i) < uint (tcd (timestamp le) (last_timestamp d))"
      and p: "penalty = 10 * (uint (tcd (timestamp le) (last_timestamp d)) div timebase_hz (objs ctx ! i))"
  shows "(confidence d < penalty \<longrightarrow>
           (\<exists>ctx' d'. DisambiguatorStateBased tcd ctx i le = Some ctx' \<and> get_d ctx' i = Some d'
              \<and> d' = SetState_d (sensor_ct (objs ctx ! i)) LS_UNKNOWN d
              \<and> state d' = LS_UNKNOWN \<and> confidence d' = confidence d
              \<and> last_timestamp d' = last_timestamp d
              \<and> lightproc_log ctx' = lightproc_log ctx))
       \<and> (penalty \<le> confidence d \<longrightarrow>
            get_d (put_d ctx i (d\<lparr>confidence := confidence d - penalty\<rparr>)) i
              = Some (d\<lparr>confidence := confidence d - penalty\<rparr>)
            \<and> DisambiguatorStateBased tcd ctx i le =
                PropagateState (put_d ctx i (d\<lparr>confidence := confidence d - penalty\<rparr>)) i le
                  \<bind> (\<lambda>ctx. set_last_timestamp ctx i le))
       \<and> 10 \<le> penalty"
proof -
  let ?hz = "timebase_hz (objs ctx ! i)"
  let ?t = "tcd (timestamp le) (last_timestamp d)"
  have al: "DisambiguatorStateBased_alloc ctx i = ctx"
    using g d i by (simp add: DisambiguatorStateBased_alloc_def get_d_def)
  have hz32: "?hz < 2 ^ 32" using hz(2) by simp
  have w32: "uint (word_of_int ?hz :: u32) = ?hz"
    using hz by (simp add: uint_word_of_int take_bit_int_eq_self)
  then have gt: "?t > word_of_int ?hz" using t by (simp add: word_less_def)
  have nz: "(word_of_int ?hz :: u32) \<noteq> 0" using w32 hz(1) by auto
  have pe: "sint (?t div word_of_int ?hz * 10) = penalty"
    unfolding p using hz(1) hz32 by (rule penalty_eq)
  have e: "DisambiguatorStateBased tcd ctx i le =
      (if confidence d < penalty then SetState ctx i LS_UNKNOWN
       else PropagateState (put_d ctx i (d\<lparr>confidence := confidence d - penalty\<rparr>)) i le
               \<bind> (\<lambda>ctx. set_last_timestamp ctx i le))"
    using i n d w st al gt nz
    by (simp add: DisambiguatorStateBased_def DisambiguatorStateBased_locked_def Let_def pe)
  have "?hz div ?hz \<le> uint ?t div ?hz"
    using t hz(1) by (intro zdiv_mono1) simp_all
  then have "1 \<le> uint ?t div ?hz" using hz(1) by simp
  then have p10: "10 \<le> penalty" unfolding p by simp
  show ?thesis
  proof (intro conjI impI)
    assume lt: "confidence d < penalty"
    from SetState_Some [OF d g, of LS_UNKNOWN] obtain g' where
      s: "SetState ctx i LS_UNKNOWN =
          Some ((put_d ctx i (SetState_d (sensor_ct (objs ctx ! i)) LS_UNKNOWN d))\<lparr>disambiguator_data_g := Some g'\<rparr>)"
      by blast
    show "\<exists>ctx' d'. DisambiguatorStateBased tcd ctx i le = Some ctx' \<and> get_d ctx' i = Some d'
              \<and> d' = SetState_d (sensor_ct (objs ctx ! i)) LS_UNKNOWN d
              \<and> state d' = LS_UNKNOWN \<and> confidence d' = confidence d
              \<and> last_timestamp d' = last_timestamp d
              \<and> lightproc_log ctx' = lightproc_log ctx"
    proof -
      have u: "\<not> LS_END \<le> LS_UNKNOWN" by (simp add: LS_UNKNOWN_def LS_END_def)
      show ?thesis using lt i u by (simp add: e s get_d_put_d_same)
    qed
  next
    assume "penalty \<le> confidence d"
    then show "DisambiguatorStateBased tcd ctx i le =
                PropagateState (put_d ctx i (d\<lparr>confidence := confidence d - penalty\<rparr>)) i le
                  \<bind> (\<lambda>ctx. set_last_timestamp ctx i le)"
      by (simp add: e)
  next
    show "get_d (put_d ctx i (d\<lparr>confidence := confidence d - penalty\<rparr>)) i
              = Some (d\<lparr>confidence := confidence d - penalty\<rparr>)"
      using i by (simp add: get_d_put_d_same)
  next
    show "10 \<le> penalty" by (rule p10)
  qed
qed

subsection \<open>Evaluation on concrete data\<close>

text \<open>
  The definitions that the simplifier unfolds to evaluate the lock finder and a step of the
  dispatcher on concrete events.
\<close>

lemmas ctx_simps = one_object_def tracker_def calloc_d_def pulse_def get_d_def put_d_def
  zero_le_def NUM_LIGHTHOUSES_def SYNC_HISTORY_LEN_def

lemmas eval_simps = apply_mod_offset_def LighthouseState_findByOffset_def
  LSParam_offset_for_state_nth LS_Params_nth LSP_def calculate_error_def ACODE_TIMING_def
  LSParam_acode_def Let_def LS_END_def LS_WaitLHB_ACode0_def LS_UNKNOWN_def DATA_BIT_def c_rem_def
  SYNC_HISTORY_LEN_def

lemma replicate_2: "replicate 2 x = [x, x]"
  by (simp add: numeral_2_eq_2)

lemmas step_simps = DisambiguatorStateBased_def DisambiguatorStateBased_alloc_def
  DisambiguatorStateBased_locked_def PropagateState_def PropagateState_capture_def
  ProcessStateChange_def ProcessStateChange_leave_sync_def ProcessStateChange_leave_sweep_def
  SetState_def RunACodeCapture_def RegisterSync_def ResetSync_def set_last_timestamp_def
  mod_offset_at_def get_best_latest_state_def survive_timecode_difference_def
  AddSyncHistory_def SolveForMod_Offset_def lightproc_def
  one_object_def calloc_d_def pulse_def get_d_def put_d_def zero_le_def NUM_LIGHTHOUSES_def
  locked60_def hist60_def upt_2_14 replicate_2

subsection \<open>The lock finder finds no lock in a partial history\<close>

text \<open>
  \<^verbatim>\<open>apply_mod_offset\<close> returns an offset inside the cycle, for which
  \<^verbatim>\<open>LighthouseState_findByOffset\<close> returns. So \<^verbatim>\<open>find_inliers\<close> returns, with at most as
  many inliers as the entries before the first empty one, and \<^verbatim>\<open>find_relative_offset\<close>
  returns \<open>LS_UNKNOWN\<close> while the history has an empty entry.
\<close>

lemma mod_group_cases:
  assumes "e = LS_WaitLHB_ACode0 \<or> e = LS_END"
  shows "LSParam_offset_for_state e = 800000 \<or> LSParam_offset_for_state e = 1600000"
  using assms by (auto simp add: LS_WaitLHB_ACode0_def LS_END_def LSParam_offset_for_state_nth)

lemma word_mod_range:
  fixes x :: u32
  assumes "0 < G" and "G < 2 ^ 31"
  shows "0 \<le> uint (x mod word_of_int G) \<and> uint (x mod word_of_int G) < G
         \<and> sint (x mod word_of_int G) = uint (x mod word_of_int G)"
proof -
  have w: "uint (word_of_int G :: u32) = G"
    using assms by (simp add: uint_word_of_int take_bit_int_eq_self)
  have u: "uint (x mod word_of_int G) = uint x mod G" by (simp add: uint_mod w)
  have r: "0 \<le> uint x mod G" "uint x mod G < G" using assms(1) by simp_all
  have "uint (x mod word_of_int G) < 2 ^ 31" using u r(2) assms(2) by linarith
  then have "sint (x mod word_of_int G) = uint (x mod word_of_int G)" by (rule sint_below_2p31)
  with u r show ?thesis by simp
qed

lemma c_rem_small: "\<bar>a\<bar> < b \<Longrightarrow> c_rem a b = a"
  by (auto simp add: c_rem_def sgn_if abs_if split: if_splits)

lemma word_of_int_range:
  assumes "0 \<le> k" and "k < G" and "G < 2 ^ 31"
  shows "0 \<le> uint (word_of_int k :: u32) \<and> uint (word_of_int k :: u32) < G
         \<and> sint (word_of_int k :: u32) = uint (word_of_int k :: u32)"
proof -
  have "k < 2 ^ 32" using assms(2,3) by (simp add: less_trans [where y = "2 ^ 31"])
  then have u: "uint (word_of_int k :: u32) = k"
    using assms(1) by (simp add: uint_word_of_int take_bit_int_eq_self)
  have "uint (word_of_int k :: u32) < 2 ^ 31" using u assms by linarith
  then have "sint (word_of_int k :: u32) = uint (word_of_int k :: u32)" by (rule sint_below_2p31)
  with u assms show ?thesis by simp
qed

lemma apply_mod_offset_range:
  assumes "e = LS_WaitLHB_ACode0 \<or> e = LS_END"
  shows "0 \<le> sint (apply_mod_offset t m e)
         \<and> sint (apply_mod_offset t m e) < LSParam_offset_for_state e"
proof -
  let ?G = "LSParam_offset_for_state e"
  have G: "0 < ?G" "?G < 2 ^ 31" using mod_group_cases [OF assms] by auto
  note wm = word_mod_range [OF G]
  show ?thesis
  proof (cases "t > m \<or> m - t > 0xFFFFFFFF div 2")
    case True
    then show ?thesis using wm [of "t - m"] wm [of "0xFFFFFFFF - m + t"]
      by (auto simp add: apply_mod_offset_def Let_def)
  next
    case False
    let ?a = "sint (t mod word_of_int ?G)" and ?b = "sint (m mod word_of_int ?G)"
    have a: "0 \<le> ?a" "?a < ?G" and b: "0 \<le> ?b" "?b < ?G"
      using wm [of t] wm [of m] by simp_all
    then have "\<bar>?a - ?b\<bar> < ?G" by linarith
    then have c: "c_rem (?a - ?b) ?G = ?a - ?b" by (rule c_rem_small)
    let ?r = "if ?a - ?b < 0 then ?a - ?b + ?G else ?a - ?b"
    have r: "0 \<le> ?r" "?r < ?G" using a b by (auto split: if_splits)
    have e: "apply_mod_offset t m e = word_of_int ?r"
      using False c by (simp add: apply_mod_offset_def Let_def)
    show ?thesis unfolding e using word_of_int_range [OF r G(2)] by simp
  qed
qed

lemma findByOffset_total:
  assumes "offset < 1600000"
  shows "\<exists>st oe. LighthouseState_findByOffset offset = Some (st, oe) \<and> st \<le> 13"
proof -
  have "\<exists>i. List.find (\<lambda>i. LSParam_offset_for_state i > offset) [2 ..< LS_END + 1] = Some i
            \<and> i \<in> set [2 ..< LS_END + 1]"
  proof (cases "List.find (\<lambda>i. LSParam_offset_for_state i > offset) [2 ..< LS_END + 1]")
    case None
    then have "\<not> (\<exists>i. i \<in> set [2 ..< LS_END + 1] \<and> LSParam_offset_for_state i > offset)"
      using find_None_iff [of "\<lambda>i. LSParam_offset_for_state i > offset" "[2 ..< LS_END + 1]"]
      by blast
    moreover have "13 \<in> set [2 ..< LS_END + 1]" by (simp add: LS_END_def)
    ultimately have "\<not> LSParam_offset_for_state 13 > offset" by blast
    with assms show ?thesis by (simp add: LSParam_offset_for_state_nth)
  next
    case (Some i)
    then obtain j where "j < length [2 ..< LS_END + 1]" "i = [2 ..< LS_END + 1] ! j"
      unfolding find_Some_iff by blast
    then have "i \<in> set [2 ..< LS_END + 1]" by (simp only: nth_mem)
    with Some show ?thesis by blast
  qed
  then obtain i where f: "List.find (\<lambda>i. LSParam_offset_for_state i > offset) [2 ..< LS_END + 1] = Some i"
    and i: "i \<in> set [2 ..< LS_END + 1]" by blast
  from i have "i \<le> 13" by (auto simp add: LS_END_def)
  then show ?thesis using f by (auto simp add: LighthouseState_findByOffset_def Let_def)
qed

lemma findByOffset_apply_mod_offset:
  assumes "e = LS_WaitLHB_ACode0 \<or> e = LS_END"
  shows "\<exists>st oe. LighthouseState_findByOffset (sint (apply_mod_offset t m e)) = Some (st, oe) \<and> st \<le> 13"
proof -
  from apply_mod_offset_range [OF assms, of t m] mod_group_cases [OF assms]
  have "sint (apply_mod_offset t m e) < 1600000" by auto
  then show ?thesis by (rule findByOffset_total)
qed

lemma find_inliers_loop_bound:
  "\<exists>k. find_inliers_loop les gm t n = Some k
       \<and> k \<le> n + int (length (takeWhile (\<lambda>e. length_le e > 0) les))"
proof (induction les arbitrary: n)
  case Nil
  then show ?case by simp
next
  case (Cons le les)
  show ?case
  proof (cases "length_le le > 0")
    case False
    then show ?thesis by simp
  next
    case True
    let ?e = "if t then LS_WaitLHB_ACode0 else LS_END"
    have "?e = LS_WaitLHB_ACode0 \<or> ?e = LS_END" by simp
    from findByOffset_apply_mod_offset [OF this, of "timestamp le" gm] obtain st oe where
      f: "LighthouseState_findByOffset (sint (apply_mod_offset (timestamp le) gm ?e)) = Some (st, oe)"
      by blast
    from Cons.IH [of n] obtain k0 where
      k0: "find_inliers_loop les gm t n = Some k0"
          "k0 \<le> n + int (length (takeWhile (\<lambda>e. length_le e > 0) les))" by blast
    from Cons.IH [of "n + 1"] obtain k1 where
      k1: "find_inliers_loop les gm t (n + 1) = Some k1"
          "k1 \<le> n + 1 + int (length (takeWhile (\<lambda>e. length_le e > 0) les))" by blast
    show ?thesis using True f k0 k1 by (auto simp add: Let_def)
  qed
qed

lemma find_inliers_partial:
  assumes "partial_history d"
  shows "\<exists>k. find_inliers d gm t = Some k \<and> \<not> k > int SYNC_HISTORY_LEN - 1"
proof -
  from find_inliers_loop_bound [of "take SYNC_HISTORY_LEN (sync_history d)" gm t 0]
  obtain k where "find_inliers d gm t = Some k"
    "k \<le> int (length (takeWhile (\<lambda>e. length_le e > 0) (take SYNC_HISTORY_LEN (sync_history d))))"
    by (auto simp add: find_inliers_def)
  with assms show ?thesis by (auto simp add: partial_history_def)
qed

lemma find_relative_offset_modes_partial:
  assumes "partial_history d"
  shows "find_relative_offset_modes d hb m gm ts = Some None"
proof (induction ts)
  case Nil
  then show ?case by simp
next
  case (Cons t ts)
  from find_inliers_partial [OF assms, of gm True] obtain k1 where
    k1: "find_inliers d gm True = Some k1" "\<not> k1 > int SYNC_HISTORY_LEN - 1" by blast
  from find_inliers_partial [OF assms, of gm False] obtain k0 where
    k0: "find_inliers d gm False = Some k0" "\<not> k0 > int SYNC_HISTORY_LEN - 1" by blast
  show ?case using Cons k0 k1 by (cases hb; cases m; cases "t = 0") simp_all
qed

lemma find_relative_offset_guesses_partial:
  assumes "partial_history d"
  shows "find_relative_offset_guesses d hb m re ac gs = Some (LS_UNKNOWN, 0, False)"
proof (induction gs)
  case Nil
  then show ?case by simp
next
  case (Cons guess gs)
  then show ?case
    by (simp add: SolveForMod_Offset_def find_relative_offset_modes_partial [OF assms])
qed

subsection \<open>Steps of an object without lock\<close>

text \<open>
  What the dispatcher returns for an object past its warm-up and without lock: for a sync
  event that starts a new sync while the history is partial (\<open>unknown_step\<close>), and for the
  event on which the lock finder succeeds (\<open>lock_step_gen\<close>). Then the warm-up, the syncs
  that fill the history, and the whole stream up to the lock (\<open>lock_run\<close>).
\<close>

lemma get_best_latest_state_loop_none:
  "list_all (\<lambda>so. case disambiguator_data so of None \<Rightarrow> True
                     | Some d \<Rightarrow> state d = LS_UNKNOWN \<or> confidence d \<le> 0) sos
   \<Longrightarrow> get_best_latest_state_loop sos k 0 None = None"
  by (induction sos arbitrary: k) (auto split: option.splits)

lemma no_trusted_best: "no_trusted ctx \<Longrightarrow> get_best_latest_state ctx = None"
  unfolding no_trusted_def get_best_latest_state_def by (rule get_best_latest_state_loop_none)

lemma no_trusted_put_d:
  assumes "no_trusted ctx" and "state d = LS_UNKNOWN \<or> confidence d \<le> 0"
  shows "no_trusted (put_d ctx i d)"
proof -
  have "set ((objs ctx)[i := (objs ctx ! i)\<lparr>disambiguator_data := Some d\<rparr>])
          \<subseteq> insert ((objs ctx ! i)\<lparr>disambiguator_data := Some d\<rparr>) (set (objs ctx))"
    by (rule set_update_subset_insert)
  then show ?thesis using assms by (auto simp add: no_trusted_def put_d_def list_all_iff)
qed

lemma no_trusted_upd:
  assumes "no_trusted ctx" and "state d = LS_UNKNOWN \<or> confidence d \<le> 0"
  shows "no_trusted (upd ctx i d g l)"
  using no_trusted_put_d [OF assms] by (simp add: upd_def no_trusted_def)

lemma no_trusted_g [simp]: "no_trusted (ctx\<lparr>disambiguator_data_g := x\<rparr>) = no_trusted ctx"
  by (simp add: no_trusted_def)

lemma alloc_same:
  "get_d ctx i = Some d \<Longrightarrow> disambiguator_data_g ctx = Some g \<Longrightarrow>
   DisambiguatorStateBased_alloc ctx i = ctx"
  by (simp add: DisambiguatorStateBased_alloc_def get_d_def split: if_splits)

lemma find_relative_offset_put_d:
  assumes "get_d ctx i = Some d0" and "disambiguator_data_g ctx = Some g"
  shows "find_relative_offset (put_d ctx i d) i =
     find_relative_offset_guesses d (get_best_latest_state (put_d ctx i d) \<noteq> None) (single_60hz_mode g)
       (sync_history d ! ((sync_offset d + (SYNC_HISTORY_LEN - 1)) mod SYNC_HISTORY_LEN))
       (find_acode (ucast (length_le (sync_history d ! ((sync_offset d + (SYNC_HISTORY_LEN - 1)) mod SYNC_HISTORY_LEN)))) AND 5)
       [LS_UNKNOWN + 1 ..< LS_END]"
  using assms get_d_Some_less [OF assms(1)]
  by (simp add: find_relative_offset_def get_d_put_d_same Let_def)

lemma EndSync_partial:
  assumes d: "get_d ctx i = Some d" and g: "disambiguator_data_g ctx = Some g"
      and part: "partial_history (AddSyncHistory d (get_last_sync d))"
  shows "EndSync ctx i = Some (put_d ctx i (AddSyncHistory d (get_last_sync d)), LS_UNKNOWN)"
  using d g
  by (simp add: EndSync_def Let_def find_relative_offset_put_d [OF d g]
        find_relative_offset_guesses_partial [OF part])

lemma unknown_step:
  assumes d: "get_d ctx i = Some d" and g: "disambiguator_data_g ctx = Some g"
      and n: "sensor_ct (objs ctx ! i) \<noteq> 0" and w: "200 \<le> stabalize d"
      and st: "state d = LS_UNKNOWN"
      and sync: "naive_classify le = LCC_SYNC"
      and new: "lastWasSync d \<longrightarrow> \<not> overlaps (get_last_sync d) le"
      and part: "lastWasSync d \<longrightarrow> partial_history (AddSyncHistory d (get_last_sync d))"
  shows "DisambiguatorStateBased tcd ctx i le = Some (put_d ctx i (unknown_next d le))"
proof -
  have i: "i < length (objs ctx)" using d by (rule get_d_Some_less)
  let ?d1 = "if lastWasSync d then AddSyncHistory d (get_last_sync d) else d"
  let ?d2 = "(RegisterSync (ResetSync ?d1) le)\<lparr>lastWasSync := True\<rparr>"
  have a: "AttemptFindState ctx i le = Some (put_d ctx i ?d2, LS_UNKNOWN)"
  proof (cases "lastWasSync d")
    case True
    with part have "partial_history (AddSyncHistory d (get_last_sync d))" by simp
    from EndSync_partial [OF d g this] True new d sync i show ?thesis
      by (simp add: AttemptFindState_def Let_def get_d_put_d_same)
  next
    case False
    with d sync i show ?thesis
      by (simp add: AttemptFindState_def Let_def EndSweep_def)
  qed
  have f: "failures ?d2 = failures d" by (simp add: RegisterSync_def ResetSync_def Let_def AddSyncHistory_def)
  show ?thesis
    using i n d w st a f
    by (simp add: DisambiguatorStateBased_def alloc_same [OF d g] DisambiguatorStateBased_unknown_def
          get_d_put_d_same Let_def set_last_timestamp_def unknown_next_def)
qed

lemma lock_step_gen:
  assumes d: "get_d ctx i = Some d" and g: "disambiguator_data_g ctx = Some g"
      and n: "sensor_ct (objs ctx ! i) \<noteq> 0" and w: "200 \<le> stabalize d"
      and st: "state d = LS_UNKNOWN" and lws: "lastWasSync d"
      and new: "naive_classify le = LCC_SYNC \<longrightarrow> \<not> overlaps (get_last_sync d) le"
      and m2: "length (mod_offset d) = 2"
      and hb: "(get_best_latest_state (put_d ctx i (AddSyncHistory d (get_last_sync d))) \<noteq> None) = h"
      and fr: "find_relative_offset_guesses (AddSyncHistory d (get_last_sync d)) h (single_60hz_mode g)
                 (sync_history (AddSyncHistory d (get_last_sync d))
                    ! ((sync_offset (AddSyncHistory d (get_last_sync d)) + (SYNC_HISTORY_LEN - 1)) mod SYNC_HISTORY_LEN))
                 (find_acode (ucast (length_le (sync_history (AddSyncHistory d (get_last_sync d))
                    ! ((sync_offset (AddSyncHistory d (get_last_sync d)) + (SYNC_HISTORY_LEN - 1)) mod SYNC_HISTORY_LEN)))) AND 5)
                 [LS_UNKNOWN + 1 ..< LS_END] = Some (s, md, b)"
      and s0: "s \<noteq> LS_UNKNOWN"
  shows "DisambiguatorStateBased tcd ctx i le =
     Some (upd ctx i (lock_next (sensor_ct (objs ctx ! i)) d s md le) (g\<lparr>single_60hz_mode := b\<rparr>) (lightproc_log ctx))"
proof -
  have i: "i < length (objs ctx)" using d by (rule get_d_Some_less)
  let ?d1 = "AddSyncHistory d (get_last_sync d)"
  let ?c1 = "put_d ctx i ?d1"
  let ?g2 = "g\<lparr>single_60hz_mode := b\<rparr>"
  let ?d2 = "?d1\<lparr>mod_offset := (mod_offset ?d1)[1 := md, 0 := md]\<rparr>"
  have fro: "find_relative_offset ?c1 i = Some (s, md, b)"
    using fr unfolding hb [symmetric] by (simp add: find_relative_offset_put_d [OF d g])
  have es: "EndSync ctx i = Some (upd ctx i ?d2 ?g2 (lightproc_log ctx), s)"
    using d g fro s0 m2 by (simp add: EndSync_def Let_def put_d_g_update upd_put_d)
  have a: "AttemptFindState ctx i le = Some (upd ctx i ?d2 ?g2 (lightproc_log ctx), s)"
    using d lws new es s0 by (simp add: AttemptFindState_def Let_def)
  let ?d3 = "?d2\<lparr>confidence := 0, failures := 0\<rparr>"
  have mo: "mod_offset_at ?d3 0 = Some md" using m2 by (simp add: mod_offset_at_def)
  let ?off = "sint ((timestamp le - md) mod word_of_int (LSParam_offset_for_state LS_END))"
  have "?off < 1600000"
    using word_mod_range [of 1600000 "timestamp le - md"]
    by (simp add: LS_END_def LSParam_offset_for_state_nth)
  from findByOffset_total [OF this] obtain st1 oe1 where
    fb: "LighthouseState_findByOffset ?off = Some (st1, oe1)" by blast
  let ?c3 = "upd ctx i ?d3 ?g2 (lightproc_log ctx)"
  have d3: "get_d ?c3 i = Some ?d3" and g3: "disambiguator_data_g ?c3 = Some ?g2"
    using i by (simp_all add: get_d_upd_same)
  from SetState_upd [OF d3 g3, of s] s0 have
    ss: "SetState ?c3 i s = Some (upd ctx i (SetState_d (sensor_ct (objs ctx ! i)) s ?d3) ?g2 (lightproc_log ctx))"
    by (auto simp add: LS_UNKNOWN_def split: if_splits)
  show ?thesis
    using i n d w st a mo fb ss s0
    by (simp add: DisambiguatorStateBased_def alloc_same [OF d g] DisambiguatorStateBased_unknown_def
          get_d_upd_same Let_def set_last_timestamp_def lock_next_def put_d_as_upd [where g = "?g2"])
qed

lemma lock_step:
  assumes d: "get_d ctx i = Some d" and g: "disambiguator_data_g ctx = Some g"
      and n: "sensor_ct (objs ctx ! i) \<noteq> 0" and w: "200 \<le> stabalize d"
      and st: "state d = LS_UNKNOWN" and lws: "lastWasSync d"
      and new: "naive_classify le = LCC_SYNC \<longrightarrow> \<not> overlaps (get_last_sync d) le"
      and m2: "length (mod_offset d) = 2"
      and nt: "no_trusted ctx"
      and fr: "find_relative_offset_guesses (AddSyncHistory d (get_last_sync d)) False (single_60hz_mode g)
                 (sync_history (AddSyncHistory d (get_last_sync d))
                    ! ((sync_offset (AddSyncHistory d (get_last_sync d)) + (SYNC_HISTORY_LEN - 1)) mod SYNC_HISTORY_LEN))
                 (find_acode (ucast (length_le (sync_history (AddSyncHistory d (get_last_sync d))
                    ! ((sync_offset (AddSyncHistory d (get_last_sync d)) + (SYNC_HISTORY_LEN - 1)) mod SYNC_HISTORY_LEN)))) AND 5)
                 [LS_UNKNOWN + 1 ..< LS_END] = Some (s, md, b)"
      and s0: "s \<noteq> LS_UNKNOWN"
  shows "DisambiguatorStateBased tcd ctx i le =
     Some (upd ctx i (lock_next (sensor_ct (objs ctx ! i)) d s md le) (g\<lparr>single_60hz_mode := b\<rparr>) (lightproc_log ctx))"
proof -
  have "no_trusted (put_d ctx i (AddSyncHistory d (get_last_sync d)))"
    using nt st by (intro no_trusted_put_d) simp_all
  then have "get_best_latest_state (put_d ctx i (AddSyncHistory d (get_last_sync d))) = None"
    by (rule no_trusted_best)
  then have hb: "(get_best_latest_state (put_d ctx i (AddSyncHistory d (get_last_sync d))) \<noteq> None) = False"
    by simp
  from lock_step_gen [OF d g n w st lws new m2 hb fr s0] show ?thesis .
qed

lemma run_append:
  "run tcd ctx (xs @ ys) = (case run tcd ctx xs of None \<Rightarrow> None | Some c \<Rightarrow> run tcd c ys)"
  by (induction xs arbitrary: ctx) (auto split: option.splits)

lemma warm_first:
  assumes "i < length (objs ctx)" and "sensor_ct (objs ctx ! i) \<noteq> 0" and "get_d ctx i = None"
  shows "DisambiguatorStateBased tcd ctx i le =
     Some (upd ctx i ((calloc_d (sensor_ct (objs ctx ! i)))\<lparr>stabalize := 1\<rparr>) (first_global ctx) (lightproc_log ctx))"
proof -
  let ?n = "sensor_ct (objs ctx ! i)"
  have a: "DisambiguatorStateBased_alloc ctx i = upd ctx i (calloc_d ?n) (first_global ctx) (lightproc_log ctx)"
    using assms
    by (cases "disambiguator_data_g ctx")
       (simp_all add: DisambiguatorStateBased_alloc_def Let_def get_d_def first_global_def
          upd_put_d [symmetric] put_d_g_update)
  show ?thesis using assms
    by (simp add: DisambiguatorStateBased_def a get_d_upd_same calloc_d_def)
qed

lemma warm_step:
  assumes "get_d ctx i = Some d" and "disambiguator_data_g ctx = Some g"
      and "sensor_ct (objs ctx ! i) \<noteq> 0" and "stabalize d < 200"
  shows "DisambiguatorStateBased tcd ctx i le = Some (put_d ctx i (d\<lparr>stabalize := stabalize d + 1\<rparr>))"
  using assms get_d_Some_less [OF assms(1)]
  by (simp add: DisambiguatorStateBased_def alloc_same [OF assms(1,2)])

lemma warm_run:
  assumes "get_d ctx i = Some d" and "disambiguator_data_g ctx = Some g"
      and "sensor_ct (objs ctx ! i) \<noteq> 0" and "stabalize d + int k \<le> 200"
  shows "run tcd ctx (replicate k (i, le)) = Some (upd ctx i (d\<lparr>stabalize := stabalize d + int k\<rparr>) g (lightproc_log ctx))"
  using assms
proof (induction k arbitrary: ctx d)
  case 0
  then show ?case by (simp add: upd_self)
next
  case (Suc k)
  let ?c1 = "put_d ctx i (d\<lparr>stabalize := stabalize d + 1\<rparr>)"
  have i: "i < length (objs ctx)" using Suc.prems(1) by (rule get_d_Some_less)
  have s: "DisambiguatorStateBased tcd ctx i le = Some ?c1"
    using Suc.prems by (intro warm_step) simp_all
  have "run tcd ?c1 (replicate k (i, le)) =
      Some (upd ?c1 i ((d\<lparr>stabalize := stabalize d + 1\<rparr>)\<lparr>stabalize := stabalize (d\<lparr>stabalize := stabalize d + 1\<rparr>) + int k\<rparr>) g (lightproc_log ?c1))"
    using Suc.prems i by (intro Suc.IH) (simp_all add: get_d_put_d_same)
  then show ?case using s Suc.prems(2)
    by (simp add: put_d_as_upd [OF Suc.prems(2)] ac_simps)
qed

lemma warm_up:
  assumes "i < length (objs ctx)" and "sensor_ct (objs ctx ! i) = n" and "n \<noteq> 0"
      and "get_d ctx i = None"
  shows "run tcd ctx (replicate 200 (i, le)) =
     Some (upd ctx i ((calloc_d n)\<lparr>stabalize := 200\<rparr>) (first_global ctx) (lightproc_log ctx))"
proof -
  let ?c1 = "upd ctx i ((calloc_d n)\<lparr>stabalize := 1\<rparr>) (first_global ctx) (lightproc_log ctx)"
  have s: "DisambiguatorStateBased tcd ctx i le = Some ?c1"
    using warm_first [of i ctx tcd le] assms by simp
  have "run tcd ?c1 (replicate 199 (i, le)) =
     Some (upd ?c1 i (((calloc_d n)\<lparr>stabalize := 1\<rparr>)\<lparr>stabalize := stabalize ((calloc_d n)\<lparr>stabalize := 1\<rparr>) + int 199\<rparr>)
             (first_global ctx) (lightproc_log ?c1))"
    using assms by (intro warm_run) (simp_all add: get_d_upd_same)
  moreover have "replicate 200 (i, le) = (i, le) # replicate 199 (i, le)"
    by (simp add: numeral_eq_Suc)
  ultimately show ?thesis using s by simp
qed

lemma ucast_len_back: "ucast (ucast (l :: u16) :: u32) = l"
  by (rule ucast_up_ucast_id) (simp add: is_up)

lemma get_last_sync_train:
  "get_last_sync (train_state n s k) = agg (s (k - 1))"
  by (simp add: get_last_sync_def train_state_def agg_def calloc_d_def ucast_len_back)

lemma sync_nonzero: "naive_classify le = LCC_SYNC \<Longrightarrow> length_le le \<noteq> 0"
  by (auto simp add: naive_classify_def Let_def LOWER_SYNC_TIME_def split: if_splits)

lemma ucast_len_pos:
  assumes n: "length_le le \<noteq> 0"
  shows "(0 :: u32) < ucast (length_le le)"
proof -
  have "(ucast (length_le le) :: u32) \<noteq> 0"
  proof
    assume z: "(ucast (length_le le) :: u32) = 0"
    have "length_le le = ucast (ucast (length_le le) :: u32)" by (simp only: ucast_len_back)
    also have "\<dots> = 0" unfolding z by simp
    finally show False using n by simp
  qed
  then show ?thesis by (simp add: word_greater_zero_iff)
qed

lemma history_fill:
  assumes "1 \<le> k" and "k \<le> SYNC_HISTORY_LEN"
  shows "(map f [0 ..< k - 1] @ replicate (SYNC_HISTORY_LEN - (k - 1)) z)[k - 1 := f (k - 1)]
         = map f [0 ..< k] @ replicate (SYNC_HISTORY_LEN - k) z"
proof -
  from assms obtain j where k: "k = Suc j" by (cases k) auto
  with assms(2) obtain m where m: "SYNC_HISTORY_LEN - j = Suc m" "SYNC_HISTORY_LEN - Suc j = m"
    by (cases "SYNC_HISTORY_LEN - j") auto
  have "(map f [0 ..< j] @ z # replicate m z)[length (map f [0 ..< j]) := f j]
        = map f [0 ..< j] @ f j # replicate m z"
    by (rule list_update_length)
  then show ?thesis unfolding k using m by simp
qed

lemma takeWhile_before_zero:
  assumes "\<not> P z"
  shows "length (takeWhile P (xs @ z # zs)) \<le> length xs"
proof (cases "\<forall>x \<in> set xs. P x")
  case True
  then show ?thesis using assms by (simp add: takeWhile_append2)
next
  case False
  then obtain x where "x \<in> set xs" "\<not> P x" by blast
  then have "takeWhile P (xs @ z # zs) = takeWhile P xs" by (rule takeWhile_append1)
  then show ?thesis by (simp add: length_takeWhile_le)
qed

lemma train_state_fields [simp]:
  "state (train_state n s k) = LS_UNKNOWN"
  "stabalize (train_state n s k) = 200"
  "lastWasSync (train_state n s k)"
  "confidence (train_state n s k) = 0"
  "length (mod_offset (train_state n s k)) = 2"
  by (simp_all add: train_state_def calloc_d_def NUM_LIGHTHOUSES_def)

lemma AddSyncHistory_train:
  assumes "1 \<le> k" and "k \<le> SYNC_HISTORY_LEN" and "length_le (s (k - 1)) \<noteq> 0"
  shows "AddSyncHistory (train_state n s k) (agg (s (k - 1))) =
     (train_state n s k)
       \<lparr>sync_history := map (\<lambda>j. agg (s j)) [0 ..< k] @ replicate (SYNC_HISTORY_LEN - k) zero_le,
        sync_offset := (if k = SYNC_HISTORY_LEN then 0 else k)\<rparr>"
proof -
  have a: "length_le (agg (s (k - 1))) \<noteq> 0" using assms(3) by (simp add: agg_def)
  have h: "sync_history (train_state n s k) =
      map (\<lambda>j. agg (s j)) [0 ..< k - 1] @ replicate (SYNC_HISTORY_LEN - (k - 1)) zero_le"
    by (simp add: train_state_def)
  have o: "sync_offset (train_state n s k) = k - 1" by (simp add: train_state_def)
  have k1: "k - 1 + 1 = k" using assms(1) by simp
  have c: "(SYNC_HISTORY_LEN \<le> k) = (k = SYNC_HISTORY_LEN)" using assms(2) by auto
  note f = history_fill [OF assms(1,2), of "\<lambda>j. agg (s j)" zero_le]
  show ?thesis
    unfolding AddSyncHistory_def Let_def using assms(2)
    by (simp only: a h o f k1 c if_True not_False_eq_True
          Disambiguator_data_t.simps) simp
qed

lemma train_first:
  assumes "length_le (s 0) \<noteq> 0"
  shows "unknown_next ((calloc_d n)\<lparr>stabalize := 200\<rparr>) (s 0) = train_state n s 1"
  using ucast_len_pos [OF assms]
  by (simp add: unknown_next_def train_state_def calloc_d_def RegisterSync_def ResetSync_def Let_def)

lemma AddSyncHistory_train_last:
  assumes "1 \<le> k" and "k < SYNC_HISTORY_LEN" and "length_le (s (k - 1)) \<noteq> 0"
  shows "AddSyncHistory (train_state n s k) (get_last_sync (train_state n s k)) =
     (train_state n s k)
       \<lparr>sync_history := map (\<lambda>j. agg (s j)) [0 ..< k] @ replicate (SYNC_HISTORY_LEN - k) zero_le,
        sync_offset := k\<rparr>"
proof -
  have le: "k \<le> SYNC_HISTORY_LEN" and ne: "k \<noteq> SYNC_HISTORY_LEN" using assms(2) by simp_all
  show ?thesis
    unfolding get_last_sync_train
    using AddSyncHistory_train [where k = k and s = s and n = n, OF assms(1) le assms(3)] ne
    by (simp only: if_False)
qed

lemma train_step:
  assumes "1 \<le> k" and "k < SYNC_HISTORY_LEN"
      and "length_le (s (k - 1)) \<noteq> 0" and "length_le (s k) \<noteq> 0"
  shows "unknown_next (train_state n s k) (s k) = train_state n s (Suc k)"
proof -
  have l: "lastWasSync (train_state n s k)" by simp
  have m: "SYNC_HISTORY_LEN - k = Suc (SYNC_HISTORY_LEN - Suc k)" using assms(2) by simp
  show ?thesis
    unfolding unknown_next_def Let_def
    using ucast_len_pos [OF assms(4)] assms(2) m
    by (simp only: l if_True AddSyncHistory_train_last [where k = k and s = s and n = n, OF assms(1,2,3)])
       (simp add: train_state_def calloc_d_def RegisterSync_def ResetSync_def Let_def SYNC_HISTORY_LEN_def)
qed

lemma train_partial:
  assumes "1 \<le> k" and "k < SYNC_HISTORY_LEN" and "length_le (s (k - 1)) \<noteq> 0"
  shows "partial_history (AddSyncHistory (train_state n s k) (get_last_sync (train_state n s k)))"
proof -
  from assms(2) obtain m where m: "SYNC_HISTORY_LEN - k = Suc m" by (cases "SYNC_HISTORY_LEN - k") auto
  let ?h = "map (\<lambda>j. agg (s j)) [0 ..< k] @ zero_le # replicate m zero_le"
  have "length (takeWhile (\<lambda>e. length_le e > 0) ?h) \<le> length (map (\<lambda>j. agg (s j)) [0 ..< k])"
    by (rule takeWhile_before_zero) (simp add: zero_le_def)
  moreover have "length ?h = SYNC_HISTORY_LEN" using m assms(2) by simp
  ultimately show ?thesis
    unfolding partial_history_def AddSyncHistory_train_last [where k = k and s = s and n = n, OF assms(1,2,3)]
    using assms(2) m by simp
qed

lemma train_run:
  assumes d: "get_d ctx i = Some ((calloc_d n)\<lparr>stabalize := 200\<rparr>)"
      and g: "disambiguator_data_g ctx = Some g"
      and n: "sensor_ct (objs ctx ! i) = n" "n \<noteq> 0"
      and sync: "\<And>j. j < SYNC_HISTORY_LEN \<Longrightarrow> naive_classify (s j) = LCC_SYNC"
      and nov: "\<And>j. Suc j < SYNC_HISTORY_LEN \<Longrightarrow> \<not> overlaps (agg (s j)) (s (Suc j))"
      and k: "k < SYNC_HISTORY_LEN"
  shows "run tcd ctx (map (\<lambda>j. (i, s j)) [0 ..< Suc k]) = Some (put_d ctx i (train_state n s (Suc k)))"
  using k
proof (induction k)
  case 0
  have "DisambiguatorStateBased tcd ctx i (s 0) =
      Some (put_d ctx i (unknown_next ((calloc_d n)\<lparr>stabalize := 200\<rparr>) (s 0)))"
    using n sync [of 0] by (intro unknown_step [OF d g]) (simp_all add: calloc_d_def LS_UNKNOWN_def SYNC_HISTORY_LEN_def)
  moreover have "length_le (s 0) \<noteq> 0" using sync [of 0] by (intro sync_nonzero) (simp add: SYNC_HISTORY_LEN_def)
  ultimately show ?case by (simp add: train_first)
next
  case (Suc k)
  have i: "i < length (objs ctx)" using d by (rule get_d_Some_less)
  let ?c = "put_d ctx i (train_state n s (Suc k))"
  have r: "run tcd ctx (map (\<lambda>j. (i, s j)) [0 ..< Suc k]) = Some ?c" using Suc by simp
  have l0: "length_le (s k) \<noteq> 0" using Suc.prems by (intro sync_nonzero sync) simp
  have l1: "length_le (s (Suc k)) \<noteq> 0" using Suc.prems by (intro sync_nonzero sync) simp
  have k1: "1 \<le> Suc k" by simp
  have l0': "length_le (s (Suc k - 1)) \<noteq> 0" using l0 by simp
  have st: "DisambiguatorStateBased tcd ?c i (s (Suc k)) =
      Some (put_d ?c i (unknown_next (train_state n s (Suc k)) (s (Suc k))))"
  proof (rule unknown_step [where g = g])
    show "get_d ?c i = Some (train_state n s (Suc k))" using i by (simp add: get_d_put_d_same)
    show "disambiguator_data_g ?c = Some g" using g by (simp add: put_d_fields)
    show "sensor_ct (objs ?c ! i) \<noteq> 0" using n i by (simp add: put_d_sensor_ct)
    show "200 \<le> stabalize (train_state n s (Suc k))" by simp
    show "state (train_state n s (Suc k)) = LS_UNKNOWN" by simp
    show "naive_classify (s (Suc k)) = LCC_SYNC" using Suc.prems by (rule sync)
    show "lastWasSync (train_state n s (Suc k)) \<longrightarrow>
          \<not> overlaps (get_last_sync (train_state n s (Suc k))) (s (Suc k))"
      using nov [of k] Suc.prems by (simp add: get_last_sync_train)
    show "lastWasSync (train_state n s (Suc k)) \<longrightarrow>
          partial_history (AddSyncHistory (train_state n s (Suc k)) (get_last_sync (train_state n s (Suc k))))"
      using train_partial [where k = "Suc k" and s = s and n = n, OF k1 Suc.prems l0'] by simp
  qed
  have ts: "unknown_next (train_state n s (Suc k)) (s (Suc k)) = train_state n s (Suc (Suc k))"
    using train_step [where k = "Suc k" and s = s and n = n, OF k1 Suc.prems l0' l1] .
  have "[0 ..< Suc (Suc k)] = [0 ..< Suc k] @ [Suc k]" by simp
  then have "run tcd ctx (map (\<lambda>j. (i, s j)) [0 ..< Suc (Suc k)]) =
      run tcd ctx (map (\<lambda>j. (i, s j)) [0 ..< Suc k] @ [(i, s (Suc k))])" by simp
  also have "\<dots> = run tcd ?c [(i, s (Suc k))]" unfolding run_append r by simp
  also have "\<dots> = Some (put_d ctx i (train_state n s (Suc (Suc k))))"
    using st ts by (simp add: put_d_put_d)
  finally show ?case .
qed

lemma AddSyncHistory_full:
  assumes "length_le (s (SYNC_HISTORY_LEN - 1)) \<noteq> 0"
  shows "AddSyncHistory (train_state n s SYNC_HISTORY_LEN) (get_last_sync (train_state n s SYNC_HISTORY_LEN))
         = full_history n s"
proof -
  have a: "1 \<le> SYNC_HISTORY_LEN" "SYNC_HISTORY_LEN \<le> SYNC_HISTORY_LEN" by (simp_all add: SYNC_HISTORY_LEN_def)
  show ?thesis
    unfolding get_last_sync_train full_history_def
    using AddSyncHistory_train [where k = SYNC_HISTORY_LEN and s = s and n = n, OF a assms]
    by simp
qed

lemma lock_run:
  assumes i: "i < length (objs ctx)" and n: "sensor_ct (objs ctx ! i) = n" "n \<noteq> 0"
      and fresh: "get_d ctx i = None"
      and nt: "no_trusted ctx"
      and sync: "\<And>j. j < SYNC_HISTORY_LEN \<Longrightarrow> naive_classify (s j) = LCC_SYNC"
      and nov: "\<And>j. j < SYNC_HISTORY_LEN \<Longrightarrow> \<not> overlaps (agg (s j)) (s (Suc j))"
      and fr: "find_relative_offset_guesses (full_history n s) False (single_60hz_mode (first_global ctx))
                 (agg (s (SYNC_HISTORY_LEN - 1)))
                 (find_acode (ucast (length_le (s (SYNC_HISTORY_LEN - 1)))) AND 5)
                 [LS_UNKNOWN + 1 ..< LS_END] = Some (st, md, b)"
      and st: "st \<noteq> LS_UNKNOWN"
  shows "run tcd ctx (replicate 200 (i, le0) @ map (\<lambda>j. (i, s j)) [0 ..< Suc SYNC_HISTORY_LEN]) =
     Some (upd ctx i (lock_next n (train_state n s SYNC_HISTORY_LEN) st md (s SYNC_HISTORY_LEN))
             ((first_global ctx)\<lparr>single_60hz_mode := b\<rparr>) (lightproc_log ctx))"
proof -
  let ?g = "first_global ctx"
  let ?cw = "upd ctx i ((calloc_d n)\<lparr>stabalize := 200\<rparr>) ?g (lightproc_log ctx)"
  let ?d = "train_state n s SYNC_HISTORY_LEN"
  let ?c = "put_d ?cw i ?d"
  have w: "run tcd ctx (replicate 200 (i, le0)) = Some ?cw"
    using i n fresh by (intro warm_up) simp_all
  have k: "SYNC_HISTORY_LEN - 1 < SYNC_HISTORY_LEN" "Suc (SYNC_HISTORY_LEN - 1) = SYNC_HISTORY_LEN"
    by (simp_all add: SYNC_HISTORY_LEN_def)
  have t: "run tcd ?cw (map (\<lambda>j. (i, s j)) [0 ..< SYNC_HISTORY_LEN]) = Some ?c"
  proof -
    have "run tcd ?cw (map (\<lambda>j. (i, s j)) [0 ..< Suc (SYNC_HISTORY_LEN - 1)]) =
        Some (put_d ?cw i (train_state n s (Suc (SYNC_HISTORY_LEN - 1))))"
    proof (rule train_run [where g = ?g])
      show "get_d ?cw i = Some ((calloc_d n)\<lparr>stabalize := 200\<rparr>)" using i by (simp add: get_d_upd_same)
      show "disambiguator_data_g ?cw = Some ?g" by simp
      show "sensor_ct (objs ?cw ! i) = n" using n by simp
      show "n \<noteq> 0" by fact
      show "naive_classify (s j) = LCC_SYNC" if "j < SYNC_HISTORY_LEN" for j using that by (rule sync)
      show "\<not> overlaps (agg (s j)) (s (Suc j))" if "Suc j < SYNC_HISTORY_LEN" for j
        using that by (intro nov) simp
      show "SYNC_HISTORY_LEN - 1 < SYNC_HISTORY_LEN" by fact
    qed
    then show ?thesis unfolding k .
  qed
  have l11: "length_le (s (SYNC_HISTORY_LEN - 1)) \<noteq> 0" using k(1) by (intro sync_nonzero sync)
  have f: "AddSyncHistory ?d (get_last_sync ?d) = full_history n s" using l11 by (rule AddSyncHistory_full)
  have re: "sync_history (full_history n s)
       ! ((sync_offset (full_history n s) + (SYNC_HISTORY_LEN - 1)) mod SYNC_HISTORY_LEN)
       = agg (s (SYNC_HISTORY_LEN - 1))"
    by (simp add: full_history_def SYNC_HISTORY_LEN_def del: upt_Suc)
  have l: "DisambiguatorStateBased tcd ?c i (s SYNC_HISTORY_LEN) =
      Some (upd ?c i (lock_next (sensor_ct (objs ?c ! i)) ?d st md (s SYNC_HISTORY_LEN))
              (?g\<lparr>single_60hz_mode := b\<rparr>) (lightproc_log ?c))"
  proof (rule lock_step [where g = ?g])
    show "get_d ?c i = Some ?d" using i by (simp add: get_d_upd_same)
    show "disambiguator_data_g ?c = Some ?g" by simp
    show "sensor_ct (objs ?c ! i) \<noteq> 0" using n by simp
    show "200 \<le> stabalize ?d" by simp
    show "state ?d = LS_UNKNOWN" by simp
    show "lastWasSync ?d" by simp
    show "naive_classify (s SYNC_HISTORY_LEN) = LCC_SYNC \<longrightarrow> \<not> overlaps (get_last_sync ?d) (s SYNC_HISTORY_LEN)"
      using nov [OF k(1)] unfolding get_last_sync_train k(2) by simp
    show "length (mod_offset ?d) = 2" by simp
    show "no_trusted ?c" using nt by (simp add: no_trusted_upd calloc_d_def LS_UNKNOWN_def)
    show "find_relative_offset_guesses (AddSyncHistory ?d (get_last_sync ?d)) False (single_60hz_mode ?g)
                 (sync_history (AddSyncHistory ?d (get_last_sync ?d))
                    ! ((sync_offset (AddSyncHistory ?d (get_last_sync ?d)) + (SYNC_HISTORY_LEN - 1)) mod SYNC_HISTORY_LEN))
                 (find_acode (ucast (length_le (sync_history (AddSyncHistory ?d (get_last_sync ?d))
                    ! ((sync_offset (AddSyncHistory ?d (get_last_sync ?d)) + (SYNC_HISTORY_LEN - 1)) mod SYNC_HISTORY_LEN)))) AND 5)
                 [LS_UNKNOWN + 1 ..< LS_END] = Some (st, md, b)"
      unfolding f re using fr by (simp add: agg_def)
    show "st \<noteq> LS_UNKNOWN" by fact
  qed
  have sp: "[0 ..< Suc SYNC_HISTORY_LEN] = [0 ..< SYNC_HISTORY_LEN] @ [SYNC_HISTORY_LEN]" by simp
  have "run tcd ctx (replicate 200 (i, le0) @ map (\<lambda>j. (i, s j)) [0 ..< Suc SYNC_HISTORY_LEN]) =
        run tcd ?c [(i, s SYNC_HISTORY_LEN)]"
    unfolding sp map_append run_append w by (simp add: t del: put_d_upd)
  also have "\<dots> = Some (upd ctx i (lock_next n ?d st md (s SYNC_HISTORY_LEN))
             (?g\<lparr>single_60hz_mode := b\<rparr>) (lightproc_log ctx))"
    using l n by simp
  finally show ?thesis .
qed

subsection \<open>A stream of one lighthouse\<close>

text \<open>
  The syncs \<open>s60\<close> lock an object in phase 5 with the offset 4000000 and set the flag
  \<open>single_60hz_mode\<close>. After the lock: an event of 3500 ticks inside the sweep of phase 3;
  or 81 events of 1500 ticks in the sync phase 2, which are accepted, and one event in the
  sweep after them, on which the sync is emitted; or the same with events of 7500 ticks in
  the sync phase 4.
\<close>

lemma upt_0_12: "[0 ..< 12] = [0, 1, 2, 3, 4, 5, 6, 7, 8, 9, 10, 11 :: nat]"
  by (simp add: upt_rec)

lemma upt_1_13: "[LS_UNKNOWN + 1 ..< LS_END] = [1, 2, 3, 4, 5, 6, 7, 8, 9, 10, 11, 12 :: nat]"
  by (simp add: upt_rec LS_UNKNOWN_def LS_END_def)

lemma upt_modes: "[0 ..< 1] = [0 :: nat]" "[0 ..< 2] = [0, 1 :: nat]"
  by (simp_all add: upt_rec)

lemma s60_sync: "naive_classify (s60 j) = LCC_SYNC"
  by (simp add: naive_classify_def s60_def pulse_def LOWER_SYNC_TIME_def UPPER_SYNC_TIME_def)

lemma history60:
  "sync_history (full_history n s60) =
    map (\<lambda>(t, l). \<lparr>sensor_id = 255, length_le = l, timestamp = t\<rparr>)
      [(20000, 2750), (420000, 3250), (820000, 2750), (1220000, 3250), (1620000, 2750),
       (2020000, 3250), (2420000, 2750), (2820000, 3250), (3220000, 2750), (3620000, 3250),
       (4020000, 2750), (4420000, 3250)]"
  unfolding full_history_def SYNC_HISTORY_LEN_def upt_0_12
  by (simp add: agg_def s60_def pulse_def)

lemma less_12_cases:
  assumes "j < SYNC_HISTORY_LEN"
  obtains "j = 0" | "j = 1" | "j = 2" | "j = 3" | "j = 4" | "j = 5" | "j = 6" | "j = 7"
    | "j = 8" | "j = 9" | "j = 10" | "j = 11"
proof -
  from assms have "j \<in> set [0 ..< 12]" by (simp add: SYNC_HISTORY_LEN_def)
  then have "j = 0 \<or> j = 1 \<or> j = 2 \<or> j = 3 \<or> j = 4 \<or> j = 5 \<or> j = 6 \<or> j = 7
    \<or> j = 8 \<or> j = 9 \<or> j = 10 \<or> j = 11" unfolding upt_0_12 by simp
  then show ?thesis using that by blast
qed

lemma s60_nov:
  assumes "j < SYNC_HISTORY_LEN"
  shows "\<not> overlaps (agg (s60 j)) (s60 (Suc j))"
  using assms
  by (rule less_12_cases) (simp_all add: overlaps_def agg_def s60_def pulse_def)

lemma inliers60:
  assumes "take SYNC_HISTORY_LEN (sync_history d) = sync_history (full_history n s60)"
  shows "find_inliers d 4000000 True = Some 12"
  unfolding find_inliers_def assms history60
  by (simp add: eval_simps upt_2_14)

lemma inliers60_dual:
  assumes "take SYNC_HISTORY_LEN (sync_history d) = sync_history (full_history n s60)"
  shows "find_inliers d 4000000 False = Some 6"
  unfolding find_inliers_def assms history60
  by (simp add: eval_simps upt_2_14)

lemma take_full_history:
  "take SYNC_HISTORY_LEN (sync_history (full_history n s)) = sync_history (full_history n s)"
  by (simp add: full_history_def)

lemma lock60:
  "find_relative_offset_guesses (full_history n s60) False m (agg (s60 (SYNC_HISTORY_LEN - 1)))
     (find_acode (ucast (length_le (s60 (SYNC_HISTORY_LEN - 1)))) AND 5) [LS_UNKNOWN + 1 ..< LS_END]
   = Some (5, 4000000, True)"
  unfolding upt_1_13
  by (simp add: inliers60 [OF take_full_history] inliers60_dual [OF take_full_history]
        upt_modes SolveForMod_Offset_def find_acode_def agg_def s60_def pulse_def
        LSParam_offset_for_state_nth LS_Params_nth LSP_def LSParam_acode_def
        LSParam_offset_for_state_Suc LS_WaitLHB_ACode0_def SYNC_HISTORY_LEN_def)

lemma locked60_eq:
  "lock_next n (train_state n s60 SYNC_HISTORY_LEN) 5 4000000 (s60 SYNC_HISTORY_LEN) = locked60 n"
proof -
  have l: "length_le (s60 (SYNC_HISTORY_LEN - 1)) \<noteq> 0"
    by (simp add: s60_def pulse_def SYNC_HISTORY_LEN_def)
  have h: "sync_history (full_history n s60) = hist60" unfolding history60 hist60_def ..
  have f: "full_history n s60 = (train_state n s60 SYNC_HISTORY_LEN)\<lparr>sync_history := hist60, sync_offset := 0\<rparr>"
    using h by (simp add: full_history_def)
  show ?thesis
    unfolding lock_next_def AddSyncHistory_full [where s = s60 and n = n, OF l] f
    by (simp add: SetState_d_def locked60_def train_state_def calloc_d_def ResetSync_def Let_def
          LS_END_def LS_UNKNOWN_def NUM_LIGHTHOUSES_def SYNC_HISTORY_LEN_def s60_def pulse_def
          replicate_2)
qed

lemma no_trusted_new: "no_trusted (new_context sos)"
  by (simp add: no_trusted_def new_context_def list_all_iff)

lemma lock60_run:
  assumes i: "i < length (objs ctx)" and n: "sensor_ct (objs ctx ! i) = n" "n \<noteq> 0"
      and fresh: "get_d ctx i = None" and nt: "no_trusted ctx"
  shows "run tcd ctx (replicate 200 (i, le0) @ map (\<lambda>j. (i, s60 j)) [0 ..< Suc SYNC_HISTORY_LEN]) =
     Some (upd ctx i (locked60 n) ((first_global ctx)\<lparr>single_60hz_mode := True\<rparr>) (lightproc_log ctx))"
proof -
  have "run tcd ctx (replicate 200 (i, le0) @ map (\<lambda>j. (i, s60 j)) [0 ..< Suc SYNC_HISTORY_LEN]) =
     Some (upd ctx i (lock_next n (train_state n s60 SYNC_HISTORY_LEN) 5 4000000 (s60 SYNC_HISTORY_LEN))
             ((first_global ctx)\<lparr>single_60hz_mode := True\<rparr>) (lightproc_log ctx))"
  proof (rule lock_run [where s = s60, OF i n fresh nt])
    show "naive_classify (s60 j) = LCC_SYNC" for j by (rule s60_sync)
    show "\<not> overlaps (agg (s60 j)) (s60 (Suc j))" if "j < SYNC_HISTORY_LEN" for j
      using that by (rule s60_nov)
    show "find_relative_offset_guesses (full_history n s60) False (single_60hz_mode (first_global ctx))
       (agg (s60 (SYNC_HISTORY_LEN - 1)))
       (find_acode (ucast (length_le (s60 (SYNC_HISTORY_LEN - 1)))) AND 5) [LS_UNKNOWN + 1 ..< LS_END]
      = Some (5, 4000000, True)" by (rule lock60)
    show "5 \<noteq> LS_UNKNOWN" by (simp add: LS_UNKNOWN_def)
  qed
  then show ?thesis unfolding locked60_eq .
qed


lemma sync_first:
  "DisambiguatorStateBased survive_timecode_difference (one_object (locked60 1) True) 0 (pulse 4820000 1500)
   = Some (one_object (sync_state 1) True)"
  by (simp add: step_simps eval_simps sync_state_def)

lemma sync_leave:
  "DisambiguatorStateBased survive_timecode_difference (one_object (sync_state 81) True) 0 (pulse 4920000 100)
   = Some ((one_object ((locked60 1)\<lparr>state := 3, confidence := 81, sync_offset := 1,
               sync_history := (sync_history (locked60 1))[0 := \<lparr>sensor_id = word_of_int (- 81), length_le = 1500, timestamp = 4820000\<rparr>],
               mod_offset := [4800000, 4000000],
               sweep_data := [pulse 4920000 100], last_timestamp := 4920000\<rparr>) True)
        \<lparr>lightproc_log := [\<lparr>lp_so = 0, lp_sensor_id = - 1, lp_acode = 0, lp_timeinsweep = 0,
             lp_timecode = 4820000, lp_length = 1500, lp_lh = 0\<rparr>]\<rparr>)"
  by (simp add: step_simps eval_simps sync_state_def)

lemma sync_next:
  assumes "k < 100" and "0 < k"
  shows "DisambiguatorStateBased survive_timecode_difference (one_object (sync_state k) True) 0 (pulse 4820000 1500)
   = Some (one_object (sync_state (Suc k)) True)"
  using assms by (simp add: step_simps eval_simps sync_state_def)

lemma sync_run:
  "k < 100 \<Longrightarrow>
   run survive_timecode_difference (one_object (sync_state 1) True) (replicate k (0, pulse 4820000 1500))
     = Some (one_object (sync_state (Suc k)) True)"
proof (induction k)
  case 0
  then show ?case by simp
next
  case (Suc k)
  have "replicate (Suc k) (0 :: nat, pulse 4820000 1500) = replicate k (0, pulse 4820000 1500) @ [(0, pulse 4820000 1500)]"
    by (simp add: replicate_append_same)
  then show ?case using Suc sync_next [of "Suc k"] by (simp add: run_append)
qed

lemma run_after: "run tcd ctx xs = Some c \<Longrightarrow> run tcd ctx (xs @ ys) = run tcd c ys"
  by (simp add: run_append)

lemma run_step: "DisambiguatorStateBased tcd ctx i le = Some c \<Longrightarrow> run tcd ctx ((i, le) # ys) = run tcd c ys"
  by simp

lemma one_object_lock60:
  "run tcd (new_context [new_object 1 48000000]) (lock_stream 0 s60)
     = Some (one_object (locked60 1) True)"
proof -
  let ?c = "new_context [new_object 1 48000000]"
  have "run tcd ?c (lock_stream 0 s60)
     = Some (upd ?c 0 (locked60 1) ((first_global ?c)\<lparr>single_60hz_mode := True\<rparr>) (lightproc_log ?c))"
    unfolding lock_stream_def warm_def syncs_def
    by (rule lock60_run) (simp_all add: new_context_def new_object_def get_d_def no_trusted_def)
  then show ?thesis
    by (simp add: upd_def put_d_def new_context_def new_object_def one_object_def first_global_def)
qed

lemma run_sync_trace:
  "run survive_timecode_difference (new_context [new_object 1 48000000])
     (lock_stream 0 s60 @ replicate 81 (0, pulse 4820000 1500) @ [(0, pulse 4920000 100)])
   = Some ((one_object ((locked60 1)\<lparr>state := 3, confidence := 81, sync_offset := 1,
               sync_history := (sync_history (locked60 1))[0 := \<lparr>sensor_id = word_of_int (- 81), length_le = 1500, timestamp = 4820000\<rparr>],
               mod_offset := [4800000, 4000000],
               sweep_data := [pulse 4920000 100], last_timestamp := 4920000\<rparr>) True)
        \<lparr>lightproc_log := [\<lparr>lp_so = 0, lp_sensor_id = - 1, lp_acode = 0, lp_timeinsweep = 0,
             lp_timecode = 4820000, lp_length = 1500, lp_lh = 0\<rparr>]\<rparr>)"
  (is "run ?t ?c0 (?l @ replicate 81 ?e @ [?f]) = Some ?r")
proof -
  have n: "(81 :: nat) = Suc 80" by simp
  have r: "replicate 81 ?e @ [?f] = ?e # (replicate 80 ?e @ [?f])"
    unfolding n replicate_Suc by simp
  have "run ?t ?c0 (?l @ replicate 81 ?e @ [?f]) = run ?t (one_object (locked60 1) True) (replicate 81 ?e @ [?f])"
    by (rule run_after [OF one_object_lock60])
  also have "\<dots> = run ?t (one_object (sync_state 1) True) (replicate 80 ?e @ [?f])"
    unfolding r by (rule run_step [OF sync_first])
  also have "\<dots> = run ?t (one_object (sync_state 81) True) [?f]"
    using sync_run [of 80] by (intro run_after) simp
  also have "\<dots> = Some ?r"
    unfolding run_step [OF sync_leave] by simp
  finally show ?thesis .
qed


lemma long_first:
  "DisambiguatorStateBased survive_timecode_difference (one_object (locked60 1) True) 0 (pulse 5200000 7500)
   = Some (one_object (long_state 1) True)"
  by (simp add: step_simps eval_simps long_state_def)

lemma long_next:
  assumes "k < 100" and "0 < k"
  shows "DisambiguatorStateBased survive_timecode_difference (one_object (long_state k) True) 0 (pulse 5200000 7500)
   = Some (one_object (long_state (Suc k)) True)"
  using assms by (simp add: step_simps eval_simps long_state_def)

lemma long_leave:
  "DisambiguatorStateBased survive_timecode_difference (one_object (long_state 81) True) 0 (pulse 5240000 100)
   = Some ((one_object ((locked60 1)\<lparr>state := 6, confidence := 81, sync_offset := 1,
               sync_history := (sync_history (locked60 1))[0 := \<lparr>sensor_id = word_of_int (- 81), length_le = 7500, timestamp = 5200000\<rparr>],
               mod_offset := [4000000, 4800000],
               sweep_data := [pulse 5240000 100], last_timestamp := 5240000\<rparr>) True)
        \<lparr>lightproc_log := [\<lparr>lp_so = 0, lp_sensor_id = - 2, lp_acode = 7, lp_timeinsweep = 0,
             lp_timecode = 5200000, lp_length = 7500, lp_lh = 1\<rparr>]\<rparr>)"
  by (simp add: step_simps eval_simps long_state_def)

lemma long_run:
  "k < 100 \<Longrightarrow>
   run survive_timecode_difference (one_object (long_state 1) True) (replicate k (0, pulse 5200000 7500))
     = Some (one_object (long_state (Suc k)) True)"
proof (induction k)
  case 0
  then show ?case by simp
next
  case (Suc k)
  have "replicate (Suc k) (0 :: nat, pulse 5200000 7500) = replicate k (0, pulse 5200000 7500) @ [(0, pulse 5200000 7500)]"
    by (simp add: replicate_append_same)
  then show ?case using Suc long_next [of "Suc k"] by (simp add: run_append)
qed

lemma run_long_trace:
  "run survive_timecode_difference (new_context [new_object 1 48000000])
     (lock_stream 0 s60 @ replicate 81 (0, pulse 5200000 7500) @ [(0, pulse 5240000 100)])
   = Some ((one_object ((locked60 1)\<lparr>state := 6, confidence := 81, sync_offset := 1,
               sync_history := (sync_history (locked60 1))[0 := \<lparr>sensor_id = word_of_int (- 81), length_le = 7500, timestamp = 5200000\<rparr>],
               mod_offset := [4000000, 4800000],
               sweep_data := [pulse 5240000 100], last_timestamp := 5240000\<rparr>) True)
        \<lparr>lightproc_log := [\<lparr>lp_so = 0, lp_sensor_id = - 2, lp_acode = 7, lp_timeinsweep = 0,
             lp_timecode = 5200000, lp_length = 7500, lp_lh = 1\<rparr>]\<rparr>)"
  (is "run ?t ?c0 (?l @ replicate 81 ?e @ [?f]) = Some ?r")
proof -
  have n: "(81 :: nat) = Suc 80" by simp
  have r: "replicate 81 ?e @ [?f] = ?e # (replicate 80 ?e @ [?f])"
    unfolding n replicate_Suc by simp
  have "run ?t ?c0 (?l @ replicate 81 ?e @ [?f]) = run ?t (one_object (locked60 1) True) (replicate 81 ?e @ [?f])"
    by (rule run_after [OF one_object_lock60])
  also have "\<dots> = run ?t (one_object (long_state 1) True) (replicate 80 ?e @ [?f])"
    unfolding r by (rule run_step [OF long_first])
  also have "\<dots> = run ?t (one_object (long_state 81) True) [?f]"
    using long_run [of 80] by (intro run_after) simp
  also have "\<dots> = Some ?r"
    unfolding run_step [OF long_leave] by simp
  finally show ?thesis .
qed

subsection \<open>A stream of two lighthouses\<close>

text \<open>
  The syncs \<open>sdual\<close> lock an object in phase 5 with the offset 1600000 and clear the flag
  \<open>single_60hz_mode\<close>. After the lock, an event 450 ticks before the end of the cycle is
  looked up as \<open>LS_END\<close>, and \<^verbatim>\<open>SetState\<close> stores phase 1.
\<close>

lemma sdual_nth:
  "sdual 0 = pulse 0 4750" "sdual 1 = pulse 20000 2750" "sdual 2 = pulse 400000 5250"
  "sdual 3 = pulse 420000 3250" "sdual 4 = pulse 800000 2750" "sdual 5 = pulse 820000 4750"
  "sdual 6 = pulse 1200000 3250" "sdual 7 = pulse 1220000 5250" "sdual 8 = pulse 1600000 4750"
  "sdual 9 = pulse 1620000 2750" "sdual 10 = pulse 2000000 5250" "sdual 11 = pulse 2020000 3250"
  "sdual 12 = pulse 2400000 2750"
  "sdual (Suc 0) = pulse 20000 2750" "sdual (Suc (Suc 0)) = pulse 400000 5250"
  by (simp_all add: sdual_def dual_events_def)

lemma sdual_sync:
  assumes "j < SYNC_HISTORY_LEN"
  shows "naive_classify (sdual j) = LCC_SYNC"
  using assms
  by (rule less_12_cases)
     (simp_all add: sdual_nth naive_classify_def pulse_def LOWER_SYNC_TIME_def UPPER_SYNC_TIME_def)

lemma sdual_nov:
  assumes "j < SYNC_HISTORY_LEN"
  shows "\<not> overlaps (agg (sdual j)) (sdual (Suc j))"
  using assms
  by (rule less_12_cases) (simp_all add: sdual_nth overlaps_def agg_def pulse_def)

lemma historydual: "sync_history (full_history n sdual) = histdual"
  unfolding full_history_def SYNC_HISTORY_LEN_def upt_0_12 histdual_def
  by (simp add: agg_def sdual_nth pulse_def)

lemma inliersdual:
  assumes "take SYNC_HISTORY_LEN (sync_history d) = sync_history (full_history n sdual)"
  shows "find_inliers d 1600000 False = Some 12"
  unfolding find_inliers_def assms historydual histdual_def
  by (simp add: eval_simps upt_2_14 LSParam_offset_for_state_Suc)

lemma lockdual:
  "find_relative_offset_guesses (full_history n sdual) False m (agg (sdual (SYNC_HISTORY_LEN - 1)))
     (find_acode (ucast (length_le (sdual (SYNC_HISTORY_LEN - 1)))) AND 5) [LS_UNKNOWN + 1 ..< LS_END]
   = Some (5, 1600000, False)"
  unfolding upt_1_13
  by (simp add: inliersdual [OF take_full_history]
        upt_modes SolveForMod_Offset_def find_acode_def agg_def sdual_nth pulse_def
        LSParam_offset_for_state_nth LS_Params_nth LSP_def LSParam_acode_def
        LSParam_offset_for_state_Suc LS_WaitLHB_ACode0_def SYNC_HISTORY_LEN_def)

lemma lockeddual_eq:
  "lock_next n (train_state n sdual SYNC_HISTORY_LEN) 5 1600000 (sdual SYNC_HISTORY_LEN) = lockeddual n"
proof -
  have l: "length_le (sdual (SYNC_HISTORY_LEN - 1)) \<noteq> 0"
    by (simp add: sdual_nth pulse_def SYNC_HISTORY_LEN_def)
  have f: "full_history n sdual = (train_state n sdual SYNC_HISTORY_LEN)\<lparr>sync_history := histdual, sync_offset := 0\<rparr>"
    using historydual [of n] by (simp add: full_history_def)
  show ?thesis
    unfolding lock_next_def AddSyncHistory_full [where s = sdual and n = n, OF l] f
    by (simp add: SetState_d_def lockeddual_def train_state_def calloc_d_def ResetSync_def Let_def
          LS_END_def LS_UNKNOWN_def NUM_LIGHTHOUSES_def SYNC_HISTORY_LEN_def sdual_nth pulse_def
          replicate_2)
qed

lemma lockdual_run:
  assumes i: "i < length (objs ctx)" and n: "sensor_ct (objs ctx ! i) = n" "n \<noteq> 0"
      and fresh: "get_d ctx i = None" and nt: "no_trusted ctx"
  shows "run tcd ctx (lock_stream i sdual) =
     Some (upd ctx i (lockeddual n) ((first_global ctx)\<lparr>single_60hz_mode := False\<rparr>) (lightproc_log ctx))"
proof -
  have "run tcd ctx (replicate 200 (i, pulse 0 0) @ map (\<lambda>j. (i, sdual j)) [0 ..< Suc SYNC_HISTORY_LEN]) =
     Some (upd ctx i (lock_next n (train_state n sdual SYNC_HISTORY_LEN) 5 1600000 (sdual SYNC_HISTORY_LEN))
             ((first_global ctx)\<lparr>single_60hz_mode := False\<rparr>) (lightproc_log ctx))"
  proof (rule lock_run [where s = sdual, OF i n fresh nt])
    show "naive_classify (sdual j) = LCC_SYNC" if "j < SYNC_HISTORY_LEN" for j using that by (rule sdual_sync)
    show "\<not> overlaps (agg (sdual j)) (sdual (Suc j))" if "j < SYNC_HISTORY_LEN" for j
      using that by (rule sdual_nov)
    show "find_relative_offset_guesses (full_history n sdual) False (single_60hz_mode (first_global ctx))
       (agg (sdual (SYNC_HISTORY_LEN - 1)))
       (find_acode (ucast (length_le (sdual (SYNC_HISTORY_LEN - 1)))) AND 5) [LS_UNKNOWN + 1 ..< LS_END]
      = Some (5, 1600000, False)" by (rule lockdual)
    show "5 \<noteq> LS_UNKNOWN" by (simp add: LS_UNKNOWN_def)
  qed
  then show ?thesis unfolding lockeddual_eq lock_stream_def warm_def syncs_def .
qed

lemma remap_step:
  "DisambiguatorStateBased survive_timecode_difference (one_object (lockeddual 1) False) 0 (pulse 3199500 100)
   = Some (one_object ((lockeddual 1)\<lparr>state := 1, last_timestamp := 3199500\<rparr>) False)"
  by (simp add: step_simps eval_simps lockeddual_def histdual_def LSParam_offset_for_state_Suc)

lemma one_object_lockdual:
  "run tcd (new_context [new_object 1 48000000]) (lock_stream 0 sdual)
     = Some (one_object (lockeddual 1) False)"
proof -
  let ?c = "new_context [new_object 1 48000000]"
  have "run tcd ?c (lock_stream 0 sdual)
     = Some (upd ?c 0 (lockeddual 1) ((first_global ?c)\<lparr>single_60hz_mode := False\<rparr>) (lightproc_log ?c))"
    by (rule lockdual_run) (simp_all add: new_context_def new_object_def get_d_def no_trusted_def)
  then show ?thesis
    by (simp add: upd_def put_d_def new_context_def new_object_def one_object_def first_global_def)
qed

lemma run_remap_trace:
  "run survive_timecode_difference (new_context [new_object 1 48000000])
     (lock_stream 0 sdual @ [(0, pulse 3199500 100)])
   = Some (one_object ((lockeddual 1)\<lparr>state := 1, last_timestamp := 3199500\<rparr>) False)"
  (is "run ?t ?c0 (?l @ [?f]) = Some ?r")
proof -
  have "run ?t ?c0 (?l @ [?f]) = run ?t (one_object (lockeddual 1) False) [?f]"
    by (rule run_after [OF one_object_lockdual])
  also have "\<dots> = Some ?r"
    unfolding run_step [OF remap_step] by simp
  finally show ?thesis .
qed

subsection \<open>Events of other objects\<close>

text \<open>An event dispatched to the object \<open>j\<close> leaves the tracker states of the others.\<close>

lemma others_kept_refl: "others_kept j c c"
  by (simp add: others_kept_def)

lemma others_kept_trans: "others_kept j a b \<Longrightarrow> others_kept j b c \<Longrightarrow> others_kept j a c"
  by (simp add: others_kept_def)

lemma others_kept_upd: "others_kept j c (upd c j d g l)"
  by (simp add: others_kept_def get_d_upd_other)

lemma others_kept_put_d: "others_kept j c (put_d c j d)"
  by (simp add: others_kept_def get_d_put_d_other)

lemma others_kept_set_last_timestamp:
  "set_last_timestamp ctx j le = Some ctx' \<Longrightarrow> others_kept j ctx ctx'"
  by (auto simp add: set_last_timestamp_def bind_eq_Some_conv others_kept_put_d)

lemma others_kept_SetState:
  assumes "SetState ctx j s = Some ctx'"
  shows "others_kept j ctx ctx'"
proof -
  from assms obtain d g where d: "get_d ctx j = Some d" and g: "disambiguator_data_g ctx = Some g"
    by (auto simp add: SetState_def bind_eq_Some_conv)
  from SetState_upd [OF d g, of s] assms show ?thesis by (auto simp add: others_kept_upd)
qed

lemma others_kept_PropagateState:
  assumes p: "PropagateState ctx j le = Some ctx'" and g: "disambiguator_data_g ctx = Some g"
  shows "others_kept j ctx ctx' \<and> disambiguator_data_g ctx' \<noteq> None"
proof -
  from p obtain d where d: "get_d ctx j = Some d"
    by (auto simp add: PropagateState_def bind_eq_Some_conv)
  have j: "j < length (objs ctx)" using d by (rule get_d_Some_less)
  show ?thesis
  proof (cases "unat (sensor_id le) \<ge> sensor_ct (objs ctx ! j)")
    case True
    with p d have "ctx' = ctx" by (simp add: PropagateState_def)
    with g show ?thesis by (simp add: others_kept_refl)
  next
    case False
    with p d g obtain ns ctx1 where
      m: "(if state d \<noteq> ns then ProcessStateChange ctx j le ns else Some ctx) = Some ctx1" and
      cap: "PropagateState_capture ctx1 j le = Some ctx'"
      by (auto simp add: PropagateState_def Let_def bind_eq_Some_conv)
    have "\<exists>d1 g1 l. ctx1 = upd ctx j d1 g1 l"
    proof (cases "state d \<noteq> ns")
      case True
      with m have "ProcessStateChange ctx j le ns = Some ctx1" by simp
      from ProcessStateChange_upd [OF this d g, of 0] show ?thesis by blast
    next
      case False
      with m have "ctx1 = ctx" by simp
      then show ?thesis using upd_self [OF d g] by metis
    qed
    then obtain d1 g1 l where c1: "ctx1 = upd ctx j d1 g1 l" by blast
    have d1: "get_d ctx1 j = Some d1" and g1: "disambiguator_data_g ctx1 = Some g1"
      using c1 j by (simp_all add: get_d_upd_same)
    from PropagateState_capture_upd [OF cap d1 g1, of 0] obtain d' g' where
      e: "ctx' = upd ctx1 j d' g' (lightproc_log ctx1)" by blast
    have "ctx' = upd ctx j d' g' l" using e c1 by simp
    then show ?thesis by (simp add: others_kept_upd)
  qed
qed

lemma others_kept_unknown:
  assumes u: "DisambiguatorStateBased_unknown ctx j le = Some ctx'"
      and d: "get_d ctx j = Some d" and g: "disambiguator_data_g ctx = Some g"
      and st: "state d = LS_UNKNOWN"
  shows "others_kept j ctx ctx'"
proof -
  have j: "j < length (objs ctx)" using d by (rule get_d_Some_less)
  from u obtain c1 s where a: "AttemptFindState ctx j le = Some (c1, s)"
    by (cases "AttemptFindState ctx j le") (auto simp add: DisambiguatorStateBased_unknown_def)
  from AttemptFindState_upd [OF a d g st, of 0 0] obtain d1 g1 where
    c1: "c1 = upd ctx j d1 g1 (lightproc_log ctx)" by auto
  have k1: "others_kept j ctx c1" unfolding c1 by (rule others_kept_upd)
  have d1: "get_d c1 j = Some d1" using c1 j by (simp add: get_d_upd_same)
  from u a d1 obtain c2 d2 where
    m: "SetState (put_d c1 j d2) j s = Some c2 \<or> c2 = put_d c1 j d2" and
    l: "set_last_timestamp c2 j le = Some ctx'"
    by (auto simp add: DisambiguatorStateBased_unknown_def Let_def bind_eq_Some_conv
          split: if_splits)
  have "others_kept j c1 c2"
    using m others_kept_trans [OF others_kept_put_d others_kept_SetState]
    by (auto simp add: others_kept_put_d)
  with k1 others_kept_set_last_timestamp [OF l] show ?thesis
    by (blast intro: others_kept_trans)
qed

lemma others_kept_locked:
  assumes u: "DisambiguatorStateBased_locked tcd ctx j d le = Some ctx'"
      and d: "get_d ctx j = Some d" and g: "disambiguator_data_g ctx = Some g"
  shows "others_kept j ctx ctx'"
proof -
  from u obtain c0 c1 where
    m: "SetState ctx j LS_UNKNOWN = Some ctx'
        \<or> ((c0 = ctx \<or> (\<exists>d0. c0 = put_d ctx j d0))
            \<and> PropagateState c0 j le = Some c1 \<and> set_last_timestamp c1 j le = Some ctx')"
    by (auto simp add: DisambiguatorStateBased_locked_def Let_def bind_eq_Some_conv
          split: if_splits)
  then show ?thesis
  proof
    assume "SetState ctx j LS_UNKNOWN = Some ctx'"
    then show ?thesis by (rule others_kept_SetState)
  next
    assume a: "(c0 = ctx \<or> (\<exists>d0. c0 = put_d ctx j d0))
            \<and> PropagateState c0 j le = Some c1 \<and> set_last_timestamp c1 j le = Some ctx'"
    then have k0: "others_kept j ctx c0" and g0: "disambiguator_data_g c0 = Some g"
      using g by (auto simp add: others_kept_refl others_kept_put_d)
    from a others_kept_PropagateState [OF _ g0] have "others_kept j c0 c1" by blast
    moreover from a have "others_kept j c1 ctx'" by (blast intro: others_kept_set_last_timestamp)
    ultimately show ?thesis using k0 by (blast intro: others_kept_trans)
  qed
qed

lemma others_kept_alloc: "others_kept j ctx (DisambiguatorStateBased_alloc ctx j)"
  by (simp add: DisambiguatorStateBased_alloc_def others_kept_def Let_def get_d_put_d_other)

lemma others_kept_step:
  assumes s: "DisambiguatorStateBased tcd ctx j le = Some ctx'"
  shows "others_kept j ctx ctx'"
proof -
  let ?c0 = "DisambiguatorStateBased_alloc ctx j"
  from s have j: "j < length (objs ctx)"
    by (auto simp add: DisambiguatorStateBased_def split: if_splits)
  show ?thesis
  proof (cases "sensor_ct (objs ctx ! j) = 0")
    case True
    with s j show ?thesis by (simp add: DisambiguatorStateBased_def others_kept_refl)
  next
    case False
    from s j False obtain d0 where d0: "get_d ?c0 j = Some d0"
      by (auto simp add: DisambiguatorStateBased_def Let_def bind_eq_Some_conv)
    have "\<exists>g0. disambiguator_data_g ?c0 = Some g0"
      by (cases "disambiguator_data_g ctx"; cases "disambiguator_data (objs ctx ! j)")
         (simp_all add: DisambiguatorStateBased_alloc_def Let_def)
    then obtain g0 where g0: "disambiguator_data_g ?c0 = Some g0" by blast
    have "others_kept j ?c0 ctx'"
    proof (cases "stabalize d0 < 200")
      case True
      with s j False d0 have "ctx' = put_d ?c0 j (d0\<lparr>stabalize := stabalize d0 + 1\<rparr>)"
        by (simp add: DisambiguatorStateBased_def Let_def)
      then show ?thesis by (simp add: others_kept_put_d)
    next
      case warm: False
      show ?thesis
      proof (cases "state d0 = LS_UNKNOWN")
        case True
        with s j False d0 warm have "DisambiguatorStateBased_unknown ?c0 j le = Some ctx'"
          by (simp add: DisambiguatorStateBased_def Let_def)
        from others_kept_unknown [OF this d0 g0 True] show ?thesis .
      next
        case locked: False
        with s j False d0 warm have "DisambiguatorStateBased_locked tcd ?c0 j d0 le = Some ctx'"
          by (simp add: DisambiguatorStateBased_def Let_def)
        from others_kept_locked [OF this d0 g0] show ?thesis .
      qed
    qed
    with others_kept_alloc [of j ctx] show ?thesis by (rule others_kept_trans)
  qed
qed

lemma run_others:
  "run tcd ctx evs = Some ctx' \<Longrightarrow> i \<notin> fst ` set evs \<Longrightarrow> get_d ctx' i = get_d ctx i"
proof (induction evs arbitrary: ctx)
  case Nil
  then show ?case by simp
next
  case (Cons ev evs)
  obtain j le where ev: "ev = (j, le)" by (cases ev)
  with Cons.prems(1) obtain c1 where
    s: "DisambiguatorStateBased tcd ctx j le = Some c1" and r: "run tcd c1 evs = Some ctx'"
    by (auto split: option.splits)
  from Cons.prems(2) ev have ij: "i \<noteq> j" and rest: "i \<notin> fst ` set evs" by auto
  from others_kept_step [OF s] ij have "get_d c1 i = get_d ctx i" by (simp add: others_kept_def)
  with Cons.IH [OF r rest] show ?case by simp
qed

lemma fst_lock_stream: "fst ` set (lock_stream i s) = {i}"
  by (auto simp add: lock_stream_def warm_def syncs_def image_iff)

lemma prefix_runs:
  assumes r: "run tcd ctx xs = Some ctx'" and i: "i \<notin> fst ` set xs"
  shows "list_all (\<lambda>p. \<exists>c. run tcd ctx p = Some c \<and> get_d c i = get_d ctx i) (prefixes xs)"
  unfolding list_all_iff
proof
  fix p assume "p \<in> set (prefixes xs)"
  then have "prefix p xs" by (simp add: in_set_prefixes)
  then obtain q where xs: "xs = p @ q" by (auto simp add: prefix_def)
  with r obtain c where c: "run tcd ctx p = Some c"
    by (cases "run tcd ctx p") (simp_all add: run_append)
  from i xs have "i \<notin> fst ` set p" by auto
  from run_others [OF c this] c show "\<exists>c. run tcd ctx p = Some c \<and> get_d c i = get_d ctx i" by blast
qed

subsection \<open>Three objects\<close>

text \<open>
  Three objects that lock one after the other, on \<open>s60\<close>, \<open>sdual\<close> and \<open>s60\<close>: each lock
  leaves the confidence at 0, so that no object is trusted at the next lock decision. And a
  lock decision beside an object that is trusted.
\<close>

lemma three_locks:
  "run tcd (new_context (replicate 3 (new_object 1 48000000))) (lock_stream 0 s60)
     = Some (three_objects (Some (locked60 1)) None None True)"
  "run tcd (three_objects (Some (locked60 1)) None None True) (lock_stream 1 sdual)
     = Some (three_objects (Some (locked60 1)) (Some (lockeddual 1)) None False)"
  "run tcd (three_objects (Some (locked60 1)) (Some (lockeddual 1)) None False) (lock_stream 2 s60)
     = Some (three_objects (Some (locked60 1)) (Some (lockeddual 1)) (Some (locked60 1)) True)"
proof -
  let ?c0 = "new_context (replicate 3 (new_object 1 48000000))"
  let ?c1 = "three_objects (Some (locked60 1)) None None True"
  let ?c2 = "three_objects (Some (locked60 1)) (Some (lockeddual 1)) None False"
  have r3: "replicate 3 x = [x, x, x]" for x :: SurviveObject by (simp add: numeral_3_eq_3)
  have c: "confidence (locked60 1) \<le> 0" "confidence (lockeddual 1) \<le> 0"
    by (simp_all add: locked60_def lockeddual_def calloc_d_def)
  have "run tcd ?c0 (lock_stream 0 s60)
     = Some (upd ?c0 0 (locked60 1) ((first_global ?c0)\<lparr>single_60hz_mode := True\<rparr>) (lightproc_log ?c0))"
    unfolding lock_stream_def warm_def syncs_def
    by (rule lock60_run) (simp_all add: r3 new_context_def new_object_def get_d_def no_trusted_def)
  then show "run tcd ?c0 (lock_stream 0 s60) = Some ?c1"
    by (simp add: r3 upd_def put_d_def new_context_def new_object_def three_objects_def first_global_def)
  have "run tcd ?c1 (lock_stream 1 sdual)
     = Some (upd ?c1 1 (lockeddual 1) ((first_global ?c1)\<lparr>single_60hz_mode := False\<rparr>) (lightproc_log ?c1))"
    using c by (intro lockdual_run) (simp_all add: three_objects_def get_d_def no_trusted_def)
  then show "run tcd ?c1 (lock_stream 1 sdual) = Some ?c2"
    by (simp add: upd_def put_d_def three_objects_def first_global_def)
  have "run tcd ?c2 (lock_stream 2 s60)
     = Some (upd ?c2 2 (locked60 1) ((first_global ?c2)\<lparr>single_60hz_mode := True\<rparr>) (lightproc_log ?c2))"
    unfolding lock_stream_def warm_def syncs_def
    using c by (intro lock60_run) (simp_all add: three_objects_def get_d_def no_trusted_def)
  then show "run tcd ?c2 (lock_stream 2 s60)
     = Some (three_objects (Some (locked60 1)) (Some (lockeddual 1)) (Some (locked60 1)) True)"
    by (simp add: upd_def put_d_def three_objects_def first_global_def)
qed

lemma lock60_best:
  "find_relative_offset_guesses (full_history n s60) True True (agg (s60 (SYNC_HISTORY_LEN - 1)))
     (find_acode (ucast (length_le (s60 (SYNC_HISTORY_LEN - 1)))) AND 5) [LS_UNKNOWN + 1 ..< LS_END]
   = Some (5, 4000000, True)"
  unfolding upt_1_13
  by (simp add: inliers60 [OF take_full_history]
        upt_modes SolveForMod_Offset_def find_acode_def agg_def s60_def pulse_def
        LSParam_offset_for_state_nth LS_Params_nth LSP_def LSParam_acode_def
        LSParam_offset_for_state_Suc LS_WaitLHB_ACode0_def SYNC_HISTORY_LEN_def)

lemma lock_beside_trusted:
  "DisambiguatorStateBased tcd
     (three_objects (Some (tracker 2 5)) (Some (train_state 1 s60 SYNC_HISTORY_LEN)) None True) 1
     (s60 SYNC_HISTORY_LEN)
   = Some (three_objects (Some (tracker 2 5)) (Some (locked60 1)) None True)"
proof -
  let ?d = "train_state 1 s60 SYNC_HISTORY_LEN"
  let ?c = "three_objects (Some (tracker 2 5)) (Some ?d) None True"
  let ?g = "\<lparr>single_60hz_mode = True\<rparr>"
  have l11: "length_le (s60 (SYNC_HISTORY_LEN - 1)) \<noteq> 0"
    by (simp add: s60_def pulse_def SYNC_HISTORY_LEN_def)
  have f: "AddSyncHistory ?d (get_last_sync ?d) = full_history 1 s60"
    using l11 by (rule AddSyncHistory_full [where s = s60])
  have re: "sync_history (full_history 1 s60)
       ! ((sync_offset (full_history 1 s60) + (SYNC_HISTORY_LEN - 1)) mod SYNC_HISTORY_LEN)
       = agg (s60 (SYNC_HISTORY_LEN - 1))"
    by (simp add: full_history_def SYNC_HISTORY_LEN_def del: upt_Suc)
  have k: "SYNC_HISTORY_LEN - 1 < SYNC_HISTORY_LEN" "Suc (SYNC_HISTORY_LEN - 1) = SYNC_HISTORY_LEN"
    by (simp_all add: SYNC_HISTORY_LEN_def)
  have "DisambiguatorStateBased tcd ?c 1 (s60 SYNC_HISTORY_LEN) =
     Some (upd ?c 1 (lock_next (sensor_ct (objs ?c ! 1)) ?d 5 4000000 (s60 SYNC_HISTORY_LEN))
             (?g\<lparr>single_60hz_mode := True\<rparr>) (lightproc_log ?c))"
  proof (rule lock_step_gen [where g = ?g and h = True])
    show "get_d ?c 1 = Some ?d" by (simp add: three_objects_def get_d_def)
    show "disambiguator_data_g ?c = Some ?g" by (simp add: three_objects_def)
    show "sensor_ct (objs ?c ! 1) \<noteq> 0" by (simp add: three_objects_def)
    show "200 \<le> stabalize ?d" by simp
    show "state ?d = LS_UNKNOWN" by simp
    show "lastWasSync ?d" by simp
    show "naive_classify (s60 SYNC_HISTORY_LEN) = LCC_SYNC \<longrightarrow> \<not> overlaps (get_last_sync ?d) (s60 SYNC_HISTORY_LEN)"
      using s60_nov [OF k(1)] unfolding get_last_sync_train k(2) by simp
    show "length (mod_offset ?d) = 2" by simp
    show "(get_best_latest_state (put_d ?c 1 (AddSyncHistory ?d (get_last_sync ?d))) \<noteq> None) = True"
      by (simp add: get_best_latest_state_def three_objects_def put_d_def tracker_def calloc_d_def
            LS_UNKNOWN_def)
    show "find_relative_offset_guesses (AddSyncHistory ?d (get_last_sync ?d)) True (single_60hz_mode ?g)
                 (sync_history (AddSyncHistory ?d (get_last_sync ?d))
                    ! ((sync_offset (AddSyncHistory ?d (get_last_sync ?d)) + (SYNC_HISTORY_LEN - 1)) mod SYNC_HISTORY_LEN))
                 (find_acode (ucast (length_le (sync_history (AddSyncHistory ?d (get_last_sync ?d))
                    ! ((sync_offset (AddSyncHistory ?d (get_last_sync ?d)) + (SYNC_HISTORY_LEN - 1)) mod SYNC_HISTORY_LEN)))) AND 5)
                 [LS_UNKNOWN + 1 ..< LS_END] = Some (5, 4000000, True)"
      unfolding f re using lock60_best [of 1] by (simp add: agg_def)
    show "5 \<noteq> LS_UNKNOWN" by (simp add: LS_UNKNOWN_def)
  qed
  moreover have "sensor_ct (objs ?c ! 1) = 1" by (simp add: three_objects_def)
  moreover have "upd ?c 1 (locked60 1) (?g\<lparr>single_60hz_mode := True\<rparr>) (lightproc_log ?c)
      = three_objects (Some (tracker 2 5)) (Some (locked60 1)) None True"
    by (simp add: three_objects_def upd_def put_d_def)
  ultimately show ?thesis by (simp only: locked60_eq)
qed

subsection \<open>The claims on event streams\<close>


text \<open>
  C5, as amended. After any stream of events processed from a new context, every call of
  \<^verbatim>\<open>lightproc\<close> is a sweep record (sensor index at least 0, positive offset) or a sync
  record: its sensor id is -1 or -2, its offset is 0 and its length is within
  \<open>[1500, 7500]\<close>. Both bounds are met: there are streams that emit a sync of 1500 ticks
  and a sync of 7500 ticks.
\<close>

theorem lightproc_records:
  "(run tcd (new_context sos) evs = Some ctx \<and> c \<in> set (lightproc_log ctx) \<longrightarrow>
      (0 \<le> lp_sensor_id c \<and> 0 < lp_timeinsweep c)
       \<or> ((lp_sensor_id c = -1 \<or> lp_sensor_id c = -2) \<and> lp_timeinsweep c = 0
           \<and> 1500 \<le> uint (lp_length c) \<and> uint (lp_length c) \<le> 7500))
   \<and> (\<exists>evs ctx c. run survive_timecode_difference (new_context [new_object 1 48000000]) evs = Some ctx
         \<and> c \<in> set (lightproc_log ctx) \<and> lp_sensor_id c = -1 \<and> uint (lp_length c) = 1500)
   \<and> (\<exists>evs ctx c. run survive_timecode_difference (new_context [new_object 1 48000000]) evs = Some ctx
         \<and> c \<in> set (lightproc_log ctx) \<and> lp_sensor_id c = -2 \<and> uint (lp_length c) = 7500)"
proof (intro conjI impI)
  assume a: "run tcd (new_context sos) evs = Some ctx \<and> c \<in> set (lightproc_log ctx)"
  then have "cinv ctx" using run_cinv [OF _ new_context_cinv] by blast
  then have "list_all lp_ok (lightproc_log ctx)" by (rule cinv_log)
  with a have "lp_ok c" by (simp add: list_all_iff)
  then show "(0 \<le> lp_sensor_id c \<and> 0 < lp_timeinsweep c)
       \<or> ((lp_sensor_id c = -1 \<or> lp_sensor_id c = -2) \<and> lp_timeinsweep c = 0
           \<and> 1500 \<le> uint (lp_length c) \<and> uint (lp_length c) \<le> 7500)"
    by (simp add: lp_ok_def)
next
  let ?c = "\<lparr>lp_so = 0, lp_sensor_id = - 1, lp_acode = 0, lp_timeinsweep = 0,
             lp_timecode = 4820000, lp_length = 1500, lp_lh = 0\<rparr>"
  show "\<exists>evs ctx c. run survive_timecode_difference (new_context [new_object 1 48000000]) evs = Some ctx
         \<and> c \<in> set (lightproc_log ctx) \<and> lp_sensor_id c = -1 \<and> uint (lp_length c) = 1500"
    using run_sync_trace
    by (intro exI [of _ "lock_stream 0 s60 @ replicate 81 (0, pulse 4820000 1500) @ [(0, pulse 4920000 100)]"]
          exI [of _ "the (run survive_timecode_difference (new_context [new_object 1 48000000])
             (lock_stream 0 s60 @ replicate 81 (0, pulse 4820000 1500) @ [(0, pulse 4920000 100)]))"]
          exI [of _ ?c]) simp
next
  let ?c = "\<lparr>lp_so = 0, lp_sensor_id = - 2, lp_acode = 7, lp_timeinsweep = 0,
             lp_timecode = 5200000, lp_length = 7500, lp_lh = 1\<rparr>"
  show "\<exists>evs ctx c. run survive_timecode_difference (new_context [new_object 1 48000000]) evs = Some ctx
         \<and> c \<in> set (lightproc_log ctx) \<and> lp_sensor_id c = -2 \<and> uint (lp_length c) = 7500"
    using run_long_trace
    by (intro exI [of _ "lock_stream 0 s60 @ replicate 81 (0, pulse 5200000 7500) @ [(0, pulse 5240000 100)]"]
          exI [of _ "the (run survive_timecode_difference (new_context [new_object 1 48000000])
             (lock_stream 0 s60 @ replicate 81 (0, pulse 5200000 7500) @ [(0, pulse 5240000 100)]))"]
          exI [of _ ?c]) simp
qed

subsection \<open>Witnesses and counterexamples\<close>


theorem PropagateState_capture_sweep_witness:
  "\<exists>ctx' d'. PropagateState_capture (one_object (tracker 3 10) False) 0 (pulse 50000 3500) = Some ctx'
      \<and> get_d ctx' 0 = Some d' \<and> sweep_data d' = [pulse 50000 3500] \<and> confidence d' = 9"
  using PropagateState_capture_sweep [of "one_object (tracker 3 10) False" 0 "tracker 3 10" "pulse 50000 3500"]
  by (simp add: ctx_simps LS_Params_nth LSP_def)

text \<open>
  C6 as stated fails twice in the sweep phase 3: an event of length 8000 is longer than 3000
  and leaves the confidence as it was, and an event of length 100, below 400, replaces the
  empty slot of its sensor.
\<close>

theorem PropagateState_capture_sweep_counterexample:
  "is_sweep (LS_Params ! 3)
   \<and> PropagateState_capture (one_object (tracker 3 10) False) 0 (pulse 50000 8000)
       = Some (one_object (tracker 3 10) False)
   \<and> PropagateState_capture (one_object (tracker 3 10) False) 0 (pulse 50000 100)
       = Some (one_object ((tracker 3 10)\<lparr>sweep_data := [pulse 50000 100]\<rparr>) False)"
  by (simp add: ctx_simps LS_Params_nth LSP_def PropagateState_capture_def)

theorem silence_penalty_witness:
  "(\<exists>ctx' d'. DisambiguatorStateBased survive_timecode_difference (one_object (tracker 2 5) False) 0
        (pulse 100000000 3000) = Some ctx'
      \<and> get_d ctx' 0 = Some d' \<and> state d' = LS_UNKNOWN \<and> confidence d' = 5
      \<and> last_timestamp d' = 0)
   \<and> DisambiguatorStateBased survive_timecode_difference (one_object (tracker 2 50) False) 0
        (pulse 100000000 3000)
       = Some (one_object ((tracker 7 31)\<lparr>last_timestamp := 100000000, first_sync_timestamp := 100000000,
            longest_sync_length := 3000, last_sync_timestamp := 100000000, last_sync_length := 3000,
            last_sync_count := 1\<rparr>) False)"
proof -
  let ?le = "pulse 100000000 3000"
  let ?g = "\<lparr>single_60hz_mode = False\<rparr>"
  have c: "0 < length (objs (one_object d False))" "sensor_ct (objs (one_object d False) ! 0) \<noteq> 0"
    "get_d (one_object d False) 0 = Some d" "disambiguator_data_g (one_object d False) = Some ?g"
    "20 \<le> timebase_hz (objs (one_object d False) ! 0)"
    "timebase_hz (objs (one_object d False) ! 0) < 2 ^ 31" for d
    by (simp_all add: one_object_def get_d_def)
  have t: "200 \<le> stabalize (tracker 2 k)" "state (tracker 2 k) \<noteq> LS_UNKNOWN"
    "timebase_hz (objs (one_object (tracker 2 k) False) ! 0)
      < uint (survive_timecode_difference (timestamp ?le) (last_timestamp (tracker 2 k)))"
    "20 = 10 * (uint (survive_timecode_difference (timestamp ?le) (last_timestamp (tracker 2 k)))
              div timebase_hz (objs (one_object (tracker 2 k) False) ! 0))"
    "confidence (tracker 2 k) = k" "last_timestamp (tracker 2 k) = 0" for k
    by (simp_all add: ctx_simps survive_timecode_difference_def LS_UNKNOWN_def)
  have a: "PropagateState (put_d (one_object (tracker 2 50) False) 0 ((tracker 2 50)\<lparr>confidence := 50 - 20\<rparr>)) 0
        ?le \<bind> (\<lambda>ctx. set_last_timestamp ctx 0 ?le)
       = Some (one_object ((tracker 7 31)\<lparr>last_timestamp := 100000000, first_sync_timestamp := 100000000,
            longest_sync_length := 3000, last_sync_timestamp := 100000000, last_sync_length := 3000,
            last_sync_count := 1\<rparr>) False)"
    by (simp add: step_simps eval_simps tracker_def)
  note c5 = c [of "tracker 2 5"] and t5 = t [of 5]
  note c50 = c [of "tracker 2 50"] and t50 = t [of 50]
  from silence_penalty [where tcd = survive_timecode_difference and le = ?le and penalty = 20,
      OF c5(1,2,3,4) t5(1,2) c5(5,6) t5(3,4)]
  have "\<exists>ctx' d'. DisambiguatorStateBased survive_timecode_difference (one_object (tracker 2 5) False) 0 ?le = Some ctx'
      \<and> get_d ctx' 0 = Some d' \<and> state d' = LS_UNKNOWN \<and> confidence d' = 5 \<and> last_timestamp d' = 0"
    unfolding t(5,6) by auto
  moreover
  from silence_penalty [where tcd = survive_timecode_difference and le = ?le and penalty = 20,
      OF c50(1,2,3,4) t50(1,2) c50(5,6) t50(3,4)]
  have "DisambiguatorStateBased survive_timecode_difference (one_object (tracker 2 50) False) 0 ?le
       = Some (one_object ((tracker 7 31)\<lparr>last_timestamp := 100000000, first_sync_timestamp := 100000000,
            longest_sync_length := 3000, last_sync_timestamp := 100000000, last_sync_length := 3000,
            last_sync_count := 1\<rparr>) False)"
    unfolding t(5,6) a by simp
  ultimately show ?thesis by (rule conjI)
qed

text \<open>
  C9 as stated fails for a small tick rate. At a tick rate of 1 and a silence of 429496728
  ticks the unsigned product \<open>10 * (timediff div timebase_hz)\<close> is 4294967280, which is -16
  as the \<^verbatim>\<open>int\<close> it is stored in: the confidence 95 is not below it, the lock is kept and
  the confidence is raised above 100.
\<close>

theorem silence_penalty_counterexample:
  "timebase_hz (objs (slow_object (tracker 2 95)) ! 0)
     < uint (survive_timecode_difference (timestamp (pulse 429496728 3000)) (last_timestamp (tracker 2 95)))
   \<and> confidence (tracker 2 95)
     < 10 * (uint (survive_timecode_difference (timestamp (pulse 429496728 3000)) (last_timestamp (tracker 2 95)))
              div timebase_hz (objs (slow_object (tracker 2 95)) ! 0))
   \<and> (\<exists>ctx' d'. DisambiguatorStateBased survive_timecode_difference (slow_object (tracker 2 95)) 0
         (pulse 429496728 3000) = Some ctx'
        \<and> get_d ctx' 0 = Some d' \<and> state d' \<noteq> LS_UNKNOWN \<and> confidence d' > 100)"
  by (simp add: step_simps eval_simps tracker_def slow_object_def)

theorem state_below_LS_END_witness:
  "\<exists>ctx d. run survive_timecode_difference (new_context [new_object 1 48000000])
              (lock_stream 0 sdual @ [(0, pulse 3199500 100)]) = Some ctx
     \<and> get_d ctx 0 = Some d \<and> state d = 1 \<and> state d < LS_END
     \<and> apply_mod_offset (timestamp (pulse 3199500 100) + word_of_int (uint (length_le (pulse 3199500 100)) div 2))
          1600000 LS_END = 1599550
     \<and> LighthouseState_findByOffset 1599550 = Some (LS_END, 450)
     \<and> (\<exists>c' e'. SetState (one_object (lockeddual 1) False) 0 LS_END = Some c' \<and> get_d c' 0 = Some e'
           \<and> state e' = 1)"
proof -
  let ?r = "one_object ((lockeddual 1)\<lparr>state := 1, last_timestamp := 3199500\<rparr>) False"
  let ?d = "(lockeddual 1)\<lparr>state := 1, last_timestamp := 3199500\<rparr>"
  have g: "get_d ?r 0 = Some ?d" by (simp add: one_object_def get_d_def)
  have l: "get_d (one_object (lockeddual 1) False) 0 = Some (lockeddual 1)"
    "disambiguator_data_g (one_object (lockeddual 1) False) = Some \<lparr>single_60hz_mode = False\<rparr>"
    by (simp_all add: one_object_def get_d_def)
  have a: "apply_mod_offset (timestamp (pulse 3199500 100) + word_of_int (uint (length_le (pulse 3199500 100)) div 2))
          1600000 LS_END = 1599550"
    by (simp add: eval_simps pulse_def)
  note t = state_below_LS_END [of survive_timecode_difference "[new_object 1 48000000]"
      "lock_stream 0 sdual @ [(0, pulse 3199500 100)]" ?r 0 ?d
      "one_object (lockeddual 1) False" 0 "lockeddual 1" "\<lparr>single_60hz_mode = False\<rparr>" LS_END 1599550]
  from t run_remap_trace g have 1: "state ?d < LS_END" by (simp add: LS_UNKNOWN_def)
  from t l have 2: "\<exists>c' e'. SetState (one_object (lockeddual 1) False) 0 LS_END = Some c' \<and> get_d c' 0 = Some e'
           \<and> state e' = 1" by simp
  from t have 3: "LighthouseState_findByOffset 1599550 = Some (LS_END, 450)" by simp
  show ?thesis
    using run_remap_trace g 1 2 3 a by (intro exI [of _ ?r] exI [of _ ?d]) simp
qed



theorem lightproc_records_witness:
  "\<exists>ctx c. run survive_timecode_difference (new_context [new_object 1 48000000])
       (lock_stream 0 s60 @ replicate 81 (0, pulse 4820000 1500) @ [(0, pulse 4920000 100)]) = Some ctx
     \<and> lightproc_log ctx = [c] \<and> lp_sensor_id c = - 1 \<and> lp_timeinsweep c = 0
     \<and> 1500 \<le> uint (lp_length c) \<and> uint (lp_length c) \<le> 7500"
proof -
  let ?c = "\<lparr>lp_so = 0, lp_sensor_id = - 1, lp_acode = 0, lp_timeinsweep = 0,
             lp_timecode = 4820000, lp_length = 1500, lp_lh = 0\<rparr>"
  let ?d = "(locked60 1)\<lparr>state := 3, confidence := 81, sync_offset := 1,
               sync_history := (sync_history (locked60 1))[0 := \<lparr>sensor_id = word_of_int (- 81), length_le = 1500, timestamp = 4820000\<rparr>],
               mod_offset := [4800000, 4000000],
               sweep_data := [pulse 4920000 100], last_timestamp := 4920000\<rparr>"
  let ?r = "(one_object ?d True)\<lparr>lightproc_log := [?c]\<rparr>"
  have m: "?c \<in> set (lightproc_log ?r)" by simp
  note t = lightproc_records [of survive_timecode_difference "[new_object 1 48000000]"
      "lock_stream 0 s60 @ replicate 81 (0, pulse 4820000 1500) @ [(0, pulse 4920000 100)]" ?r ?c]
  from t run_sync_trace m
  have "1500 \<le> uint (lp_length ?c) \<and> uint (lp_length ?c) \<le> 7500" by simp
  then show ?thesis
    using run_sync_trace by (intro exI [of _ ?r] exI [of _ ?c]) simp
qed

text \<open>
  C5 as stated fails below 2000 and above 7000. After the lock on \<open>s60\<close>, 81 events of 1500 ticks in the
  sync phase 2 are off the expected 2750 ticks by 1250, not more, and are accepted: the
  confidence is 81 and the longest sync length is 1500. The next event, in the sweep, ends
  the sync, which is passed to \<^verbatim>\<open>lightproc\<close> with the sensor id -1 and the length 1500.
  In the same way 81 events of 7500 ticks in the sync phase 4 are off the 6250 ticks of its
  acode with the data bit by 1250, and the sync is passed on with the sensor id -2 and the
  length 7500.
\<close>

theorem lightproc_sync_length_counterexample:
  "(\<exists>ctx. run survive_timecode_difference (new_context [new_object 1 48000000])
       (lock_stream 0 s60 @ replicate 81 (0, pulse 4820000 1500) @ [(0, pulse 4920000 100)]) = Some ctx
     \<and> lightproc_log ctx = [\<lparr>lp_so = 0, lp_sensor_id = - 1, lp_acode = 0, lp_timeinsweep = 0,
             lp_timecode = 4820000, lp_length = 1500, lp_lh = 0\<rparr>])
   \<and> (\<exists>ctx. run survive_timecode_difference (new_context [new_object 1 48000000])
       (lock_stream 0 s60 @ replicate 81 (0, pulse 5200000 7500) @ [(0, pulse 5240000 100)]) = Some ctx
     \<and> lightproc_log ctx = [\<lparr>lp_so = 0, lp_sensor_id = - 2, lp_acode = 7, lp_timeinsweep = 0,
             lp_timecode = 5200000, lp_length = 7500, lp_lh = 1\<rparr>])"
  using run_sync_trace run_long_trace by simp

theorem lock_decision_keeps_mode_witness:
  "get_best_latest_state (three_objects (Some (tracker 2 5)) (Some (train_state 1 s60 SYNC_HISTORY_LEN)) None True)
     = Some 0
   \<and> (\<exists>ctx' d'. DisambiguatorStateBased survive_timecode_difference
         (three_objects (Some (tracker 2 5)) (Some (train_state 1 s60 SYNC_HISTORY_LEN)) None True) 1
         (s60 SYNC_HISTORY_LEN) = Some ctx'
       \<and> get_d ctx' 1 = Some d' \<and> state d' = 5
       \<and> disambiguator_data_g ctx' = Some \<lparr>single_60hz_mode = True\<rparr>)
   \<and> (\<exists>c'. SetState (three_objects (Some (tracker 2 5)) (Some (locked60 1)) None True) 1 LS_UNKNOWN = Some c'
         \<and> disambiguator_data_g c' = Some \<lparr>single_60hz_mode = True\<rparr>)
   \<and> (\<exists>c'. SetState (three_objects (Some (tracker 2 0)) (Some (locked60 1)) None True) 1 LS_UNKNOWN = Some c'
         \<and> disambiguator_data_g c' = Some \<lparr>single_60hz_mode = False\<rparr>)"
proof -
  let ?d = "train_state 1 s60 SYNC_HISTORY_LEN"
  let ?c = "three_objects (Some (tracker 2 5)) (Some ?d) None True"
  let ?r = "three_objects (Some (tracker 2 5)) (Some (locked60 1)) None True"
  let ?g = "\<lparr>single_60hz_mode = True\<rparr>"
  have b: "get_best_latest_state ?c = Some 0"
    by (simp add: get_best_latest_state_def three_objects_def tracker_def calloc_d_def LS_UNKNOWN_def)
  have h: "disambiguator_data_g ?c = Some ?g" "get_d ?c 1 = Some ?d"
    "state ?d = LS_UNKNOWN" "get_best_latest_state ?c \<noteq> None"
    using b by (simp_all add: three_objects_def get_d_def)
  have k: "disambiguator_data_g (three_objects (Some (tracker 2 n)) (Some (locked60 1)) None True) = Some ?g"
    "get_d (three_objects (Some (tracker 2 n)) (Some (locked60 1)) None True) 1 = Some (locked60 1)" for n
    by (simp_all add: three_objects_def get_d_def)
  have b5: "get_best_latest_state (put_d (three_objects (Some (tracker 2 5)) (Some (locked60 1)) None True) 1
       ((locked60 1)\<lparr>state := LS_UNKNOWN\<rparr>)) = Some 0"
    by (simp add: get_best_latest_state_def three_objects_def put_d_def tracker_def calloc_d_def
          locked60_def LS_UNKNOWN_def)
  have b0: "get_best_latest_state (put_d (three_objects (Some (tracker 2 0)) (Some (locked60 1)) None True) 1
       ((locked60 1)\<lparr>state := LS_UNKNOWN\<rparr>)) = None"
    by (simp add: get_best_latest_state_def three_objects_def put_d_def tracker_def calloc_d_def
          locked60_def LS_UNKNOWN_def)
  note t = lock_decision_keeps_mode [of ?c ?g 1 ?d survive_timecode_difference "s60 SYNC_HISTORY_LEN" ?r]
  have "disambiguator_data_g ?r = Some ?g"
    by (rule mp [OF conjunct1 [OF t]]) (intro conjI h lock_beside_trusted)
  moreover have "get_d ?r 1 = Some (locked60 1)" "state (locked60 1) = 5"
    by (simp_all add: three_objects_def get_d_def locked60_def)
  ultimately have 1: "\<exists>ctx' d'. DisambiguatorStateBased survive_timecode_difference ?c 1 (s60 SYNC_HISTORY_LEN) = Some ctx'
       \<and> get_d ctx' 1 = Some d' \<and> state d' = 5
       \<and> disambiguator_data_g ctx' = Some ?g"
    using lock_beside_trusted [of survive_timecode_difference]
    by (intro exI [of _ ?r] exI [of _ "locked60 1"]) simp
  note t5 = lock_decision_keeps_mode [where c = "three_objects (Some (tracker 2 5)) (Some (locked60 1)) None True"
      and j = 1 and e = "locked60 1" and ?g0.0 = ?g]
  from mp [OF conjunct1 [OF conjunct2 [OF t5]] conjI [OF k [of 5]]] b5
  have 2: "\<exists>c'. SetState (three_objects (Some (tracker 2 5)) (Some (locked60 1)) None True) 1 LS_UNKNOWN = Some c'
         \<and> disambiguator_data_g c' = Some ?g" by simp
  note t0 = lock_decision_keeps_mode [where c = "three_objects (Some (tracker 2 0)) (Some (locked60 1)) None True"
      and j = 1 and e = "locked60 1" and ?g0.0 = ?g]
  from mp [OF conjunct1 [OF conjunct2 [OF t0]] conjI [OF k [of 0]]] b0
  have 3: "\<exists>c'. SetState (three_objects (Some (tracker 2 0)) (Some (locked60 1)) None True) 1 LS_UNKNOWN = Some c'
         \<and> disambiguator_data_g c' = Some \<lparr>single_60hz_mode = False\<rparr>" by simp
  from b 1 2 3 show ?thesis by (intro conjI)
qed

text \<open>
  C4 as stated fails with three objects. The first locks on the syncs of one lighthouse and
  sets the flag; the second locks on the syncs of two lighthouses and clears it, because
  the first, whose confidence is 0, is not an object that \<^verbatim>\<open>get_best_latest_state\<close>
  returns; the third locks on the syncs of one lighthouse and sets the flag again. After
  every event of the second and the third stream the first object is locked as before, in
  phase 5: the objects never are without lock all at once.
\<close>

theorem mode_set_twice_counterexample:
  "run survive_timecode_difference (new_context (replicate 3 (new_object 1 48000000))) (lock_stream 0 s60)
     = Some (three_objects (Some (locked60 1)) None None True)
   \<and> run survive_timecode_difference (three_objects (Some (locked60 1)) None None True) (lock_stream 1 sdual)
     = Some (three_objects (Some (locked60 1)) (Some (lockeddual 1)) None False)
   \<and> run survive_timecode_difference (three_objects (Some (locked60 1)) (Some (lockeddual 1)) None False)
       (lock_stream 2 s60)
     = Some (three_objects (Some (locked60 1)) (Some (lockeddual 1)) (Some (locked60 1)) True)
   \<and> state (locked60 1) = 5
   \<and> list_all (\<lambda>p. \<exists>c. run survive_timecode_difference (three_objects (Some (locked60 1)) None None True) p = Some c
                     \<and> get_d c 0 = Some (locked60 1))
        (prefixes (lock_stream 1 sdual @ lock_stream 2 s60))"
proof -
  let ?c1 = "three_objects (Some (locked60 1)) None None True"
  have "run survive_timecode_difference ?c1 (lock_stream 1 sdual @ lock_stream 2 s60)
     = Some (three_objects (Some (locked60 1)) (Some (lockeddual 1)) (Some (locked60 1)) True)"
    by (simp only: run_append three_locks option.case)
  moreover have "0 \<notin> fst ` set (lock_stream 1 sdual @ lock_stream 2 s60)"
    by (simp add: image_Un fst_lock_stream)
  ultimately have "list_all (\<lambda>p. \<exists>c. run survive_timecode_difference ?c1 p = Some c \<and> get_d c 0 = get_d ?c1 0)
        (prefixes (lock_stream 1 sdual @ lock_stream 2 s60))"
    by (rule prefix_runs)
  then have "list_all (\<lambda>p. \<exists>c. run survive_timecode_difference ?c1 p = Some c \<and> get_d c 0 = Some (locked60 1))
        (prefixes (lock_stream 1 sdual @ lock_stream 2 s60))"
    by (simp add: three_objects_def get_d_def)
  moreover have "state (locked60 1) = 5" by (simp add: locked60_def)
  ultimately show ?thesis using three_locks [of survive_timecode_difference] by (intro conjI)
qed

end
